theory Spec2Isabelle
  imports Complex_Main
begin

section \<open>Environment source chain\<close>

text \<open>
  An environment source is a JavaScript object from variable names to strings
  (\<^verbatim>\<open>Record<string, string>\<close>, or \<^verbatim>\<open>process.env\<close>). The properties the object sets itself
  are modelled as a partial map; a key that is not set maps to \<open>None\<close>.
\<close>

type_synonym env_vars = "string \<rightharpoonup> string"

text \<open>
  Every such object inherits from \<^verbatim>\<open>Object.prototype\<close>. These are the names of the members
  of \<^verbatim>\<open>Object.prototype\<close> (\<^verbatim>\<open>Object.getOwnPropertyNames(Object.prototype)\<close>).
\<close>

definition Object_prototype_members :: "string list" where
  "Object_prototype_members =
     [''constructor'', ''__defineGetter__'', ''__defineSetter__'', ''hasOwnProperty'',
      ''__lookupGetter__'', ''__lookupSetter__'', ''isPrototypeOf'', ''propertyIsEnumerable'',
      ''toString'', ''valueOf'', ''__proto__'', ''toLocaleString'']"

text \<open>
  What a property read returns when it is not \<^verbatim>\<open>undefined\<close>: the string the object sets
  for the key, or, for a key the object does not set, the inherited member of that name
  (a function such as \<^verbatim>\<open>Object\<close> for \<^verbatim>\<open>constructor\<close>; the prototype itself for \<^verbatim>\<open>__proto__\<close>).
\<close>

datatype env_value = Text string | Inherited string

text \<open>The property read \<^verbatim>\<open>obj[key]\<close> and the test \<^verbatim>\<open>key in obj\<close>.\<close>

definition property :: "env_vars \<Rightarrow> string \<Rightarrow> env_value option" where
  "property obj key =
     (case obj key of
        Some v \<Rightarrow> Some (Text v)
      | None \<Rightarrow> if key \<in> set Object_prototype_members then Some (Inherited key) else None)"

definition has_property :: "env_vars \<Rightarrow> string \<Rightarrow> bool" where
  "has_property obj key \<longleftrightarrow> obj key \<noteq> None \<or> key \<in> set Object_prototype_members"

text \<open>
  The interface \<^verbatim>\<open>EnvironmentProvider\<close>: the three methods of a provider object. The
  declared result of \<^verbatim>\<open>get\<close> is \<^verbatim>\<open>string | undefined\<close>; the implementations below return
  whatever the property read gives.
\<close>

record EnvironmentProvider =
  get :: "string \<Rightarrow> env_value option"
  has :: "string \<Rightarrow> bool"
  getAll :: env_vars

text \<open>
  \<^verbatim>\<open>ProcessEnvProvider\<close>, over the process environment given as a map. \<^verbatim>\<open>getAll\<close> copies the
  variables the environment sets itself (\<^verbatim>\<open>Object.entries\<close>) into a fresh object by
  assignment; the assignment \<^verbatim>\<open>result["__proto__"] = value\<close> of a string reaches the
  inherited setter, which ignores it, so that this one name is not copied.
\<close>

definition ProcessEnvProvider :: "env_vars \<Rightarrow> EnvironmentProvider" where
  "ProcessEnvProvider process_env =
     \<lparr>get = (\<lambda>key. property process_env key),
      has = (\<lambda>key. has_property process_env key),
      getAll = process_env(''__proto__'' := None)\<rparr>"

text \<open>
  \<^verbatim>\<open>DotenvProvider\<close>, constructed from the variables of a file. The constructor and
  \<^verbatim>\<open>getAll\<close> copy the variables with a spread, which copies every property the object sets
  itself.
\<close>

definition DotenvProvider :: "env_vars \<Rightarrow> EnvironmentProvider" where
  "DotenvProvider envVars =
     \<lparr>get = (\<lambda>key. property envVars key),
      has = (\<lambda>key. has_property envVars key),
      getAll = envVars\<rparr>"

text \<open>The operator \<^verbatim>\<open>a ?? b\<close> on possibly undefined values.\<close>

definition nullish :: "'a option \<Rightarrow> 'a option \<Rightarrow> 'a option" where
  "nullish a b = (case a of Some v \<Rightarrow> Some v | None \<Rightarrow> b)"

text \<open>
  \<^verbatim>\<open>TripleMergedEnvProvider\<close>: \<^verbatim>\<open>get\<close> asks the three sources in turn, \<^verbatim>\<open>getAll\<close> spreads
  the process variables, then the file's, then the caller's into one object, a later
  spread overwriting an earlier one (\<open>++\<close> on maps).
\<close>

definition TripleMergedEnvProvider ::
  "EnvironmentProvider \<Rightarrow> EnvironmentProvider \<Rightarrow> EnvironmentProvider \<Rightarrow> EnvironmentProvider" where
  "TripleMergedEnvProvider mcpEnv dotenvEnv processEnv =
     \<lparr>get = (\<lambda>key. nullish (nullish (get mcpEnv key) (get dotenvEnv key)) (get processEnv key)),
      has = (\<lambda>key. has mcpEnv key \<or> has dotenvEnv key \<or> has processEnv key),
      getAll = getAll processEnv ++ getAll dotenvEnv ++ getAll mcpEnv\<rparr>"

text \<open>
  A chain over three sources that are kept apart, as the class allows: the caller-supplied
  variables and the file's variables are held as objects of variables, the lowest tier is
  the process environment. (The server's own start-up code, \<^verbatim>\<open>initializeEnvironmentProvider\<close>,
  passes a \<^verbatim>\<open>ProcessEnvProvider\<close> in the caller's position as well, so that there the
  caller's tier and the process tier read the same environment; that is the instance
  \<open>TripleMergedEnvProvider (ProcessEnvProvider p) (DotenvProvider d) (ProcessEnvProvider p)\<close>.)
\<close>

definition source_chain :: "env_vars \<Rightarrow> env_vars \<Rightarrow> env_vars \<Rightarrow> EnvironmentProvider" where
  "source_chain mcp dotenv process_env =
     TripleMergedEnvProvider (DotenvProvider mcp) (DotenvProvider dotenv)
       (ProcessEnvProvider process_env)"


section \<open>Environment cache\<close>

text \<open>
  Times are the milliseconds of \<^verbatim>\<open>Date.now()\<close>, integers. A time-to-live is a number
  of milliseconds or \<^verbatim>\<open>Infinity\<close>. A cached value is \<^verbatim>\<open>any\<close> value, possibly
  \<^verbatim>\<open>undefined\<close>, which is \<open>None\<close> here.
\<close>

datatype duration = Finite int | Infinity

text \<open>The comparison \<^verbatim>\<open>elapsed > ttl\<close> of the source.\<close>

definition exceeds :: "int \<Rightarrow> duration \<Rightarrow> bool" where
  "exceeds elapsed t = (case t of Finite n \<Rightarrow> elapsed > n | Infinity \<Rightarrow> False)"

text \<open>The interface \<^verbatim>\<open>ConfigCache\<close>: one cache entry.\<close>

record 'v ConfigCache =
  entry_value :: "'v option"
  timestamp :: int
  ttl :: duration

text \<open>
  The class \<^verbatim>\<open>EnvironmentCache\<close>: the entries, the in-flight computations (a promise
  is named by a number) and the default time-to-live.
\<close>

record 'v EnvironmentCache =
  cache :: "string \<rightharpoonup> 'v ConfigCache"
  inFlight :: "string \<rightharpoonup> nat"
  defaultTTL :: "duration option"

text \<open>
  \<^verbatim>\<open>get(key, ttl?)\<close> at time \<open>now\<close>: the value read and the cache afterwards. An
  expired entry is deleted by the read that finds it.
\<close>

definition EnvironmentCache_get ::
  "string \<Rightarrow> duration option \<Rightarrow> int \<Rightarrow> 'v EnvironmentCache \<Rightarrow> 'v option \<times> 'v EnvironmentCache" where
  "EnvironmentCache_get key ttl_arg now c =
     (case cache c key of
        None \<Rightarrow> (None, c)
      | Some entry \<Rightarrow>
          (let effectiveTTL = (case ttl_arg of Some t \<Rightarrow> t | None \<Rightarrow> ttl entry) in
           if exceeds (now - timestamp entry) effectiveTTL
           then (None, c\<lparr>cache := (cache c)(key := None)\<rparr>)
           else (entry_value entry, c)))"

text \<open>\<^verbatim>\<open>set(key, value, ttl?)\<close> at time \<open>now\<close>.\<close>

definition EnvironmentCache_set ::
  "string \<Rightarrow> 'v option \<Rightarrow> duration option \<Rightarrow> int \<Rightarrow> 'v EnvironmentCache \<Rightarrow> 'v EnvironmentCache" where
  "EnvironmentCache_set key v ttl_arg now c =
     c\<lparr>cache := (cache c)(key \<mapsto>
         \<lparr>entry_value = v, timestamp = now,
          ttl = (case ttl_arg of Some t \<Rightarrow> t
                 | None \<Rightarrow> (case defaultTTL c of Some d \<Rightarrow> d | None \<Rightarrow> Infinity))\<rparr>)\<rparr>"

text \<open>\<^verbatim>\<open>delete(key)\<close>: whether an entry was removed, and the cache afterwards.\<close>

definition EnvironmentCache_delete ::
  "string \<Rightarrow> 'v EnvironmentCache \<Rightarrow> bool \<times> 'v EnvironmentCache" where
  "EnvironmentCache_delete key c =
     (key \<in> dom (cache c),
      c\<lparr>inFlight := (inFlight c)(key := None), cache := (cache c)(key := None)\<rparr>)"

text \<open>The cache a constructor call \<^verbatim>\<open>new EnvironmentCache({ defaultTTL })\<close> returns.\<close>

definition new_EnvironmentCache :: "duration option \<Rightarrow> 'v EnvironmentCache" where
  "new_EnvironmentCache d = \<lparr>cache = Map.empty, inFlight = Map.empty, defaultTTL = d\<rparr>"


subsection \<open>Single-flight computation\<close>

text \<open>
  JavaScript runs one task at a time: the body of \<^verbatim>\<open>getOrCompute\<close> up to its
  \<^verbatim>\<open>return\<close> runs without interruption, and the callbacks it registers with
  \<^verbatim>\<open>then\<close> run later, in a step of their own, when the resolver's result settles.
  The event loop is modelled by its state and these two kinds of step.

  A resolver, when called, either throws at once or returns a value or a promise that
  later settles: fulfilled with a value (\<open>Inr\<close>) or rejected with an error (\<open>Inl\<close>).
\<close>

datatype ('v, 'e) resolver = Throws 'e | Returns "'e + 'v option"

text \<open>
  What a caller of \<^verbatim>\<open>getOrCompute\<close> holds (the function is \<^verbatim>\<open>async\<close>, so each call
  returns a promise of its own): a promise fulfilled with the cached value, a promise
  rejected with the error its resolver threw synchronously, or a promise that settles as
  the numbered promise stored in the in-flight map does.
\<close>

datatype ('v, 'e) handle = Cached 'v | Threw 'e | Awaits nat

text \<open>
  The state: the cache object; for each promise created by \<^verbatim>\<open>getOrCompute\<close> and not yet
  settled, the key and the time-to-live its callbacks captured and the outcome the
  resolver's result will have; the outcomes of the settled promises; the number of the
  next promise; and the log of the resolver invocations, by key.
\<close>

record ('v, 'e) event_loop =
  envCache :: "'v EnvironmentCache"
  pending :: "nat \<rightharpoonup> (string \<times> duration option \<times> ('e + 'v option))"
  settled :: "nat \<rightharpoonup> ('e + 'v option)"
  next_promise :: nat
  resolver_calls :: "string list"

text \<open>\<^verbatim>\<open>getOrCompute(key, resolver, ttl?)\<close> called at time \<open>now\<close>.\<close>

definition getOrCompute ::
  "string \<Rightarrow> ('v, 'e) resolver \<Rightarrow> duration option \<Rightarrow> int \<Rightarrow> ('v, 'e) event_loop
     \<Rightarrow> ('v, 'e) handle \<times> ('v, 'e) event_loop" where
  "getOrCompute key resolver_fn ttl_arg now s =
     (let (cached, c1) = EnvironmentCache_get key ttl_arg now (envCache s) in
      case cached of
        Some v \<Rightarrow> (Cached v, s\<lparr>envCache := c1\<rparr>)
      | None \<Rightarrow>
          (case inFlight c1 key of
             Some existing \<Rightarrow> (Awaits existing, s\<lparr>envCache := c1\<rparr>)
           | None \<Rightarrow>
               (case resolver_fn of
                  Throws e \<Rightarrow>
                    (Threw e, s\<lparr>envCache := c1, resolver_calls := resolver_calls s @ [key]\<rparr>)
                | Returns outcome \<Rightarrow>
                    (let promise = next_promise s in
                     (Awaits promise,
                      s\<lparr>envCache := c1\<lparr>inFlight := (inFlight c1)(key \<mapsto> promise)\<rparr>,
                        pending := (pending s)(promise \<mapsto> (key, ttl_arg, outcome)),
                        next_promise := promise + 1,
                        resolver_calls := resolver_calls s @ [key]\<rparr>)))))"

text \<open>
  The step in which the resolver's result for \<open>promise\<close> settles, at time \<open>now\<close>: the
  success callback stores the value and removes the in-flight entry, the failure callback
  removes the in-flight entry.
\<close>

definition settle :: "nat \<Rightarrow> int \<Rightarrow> ('v, 'e) event_loop \<Rightarrow> ('v, 'e) event_loop" where
  "settle promise now s =
     (case pending s promise of
        None \<Rightarrow> s
      | Some (key, ttl_arg, outcome) \<Rightarrow>
          (let c = envCache s;
               c1 = (case outcome of
                       Inr v \<Rightarrow> (let c' = EnvironmentCache_set key v ttl_arg now c
                                 in c'\<lparr>inFlight := (inFlight c')(key := None)\<rparr>)
                     | Inl e \<Rightarrow> c\<lparr>inFlight := (inFlight c)(key := None)\<rparr>)
           in s\<lparr>envCache := c1,
                pending := (pending s)(promise := None),
                settled := (settled s)(promise \<mapsto> outcome)\<rparr>))"

text \<open>What the holder of a handle has received in state \<open>s\<close>, if anything yet.\<close>

definition received :: "('v, 'e) event_loop \<Rightarrow> ('v, 'e) handle \<Rightarrow> ('e + 'v option) option" where
  "received s h =
     (case h of Cached v \<Rightarrow> Some (Inr (Some v)) | Threw e \<Rightarrow> Some (Inl e) | Awaits p \<Rightarrow> settled s p)"

text \<open>
  Concurrent calls for one key: the calls are made one after the other, each with its
  resolver, time-to-live and time, and no promise settles in between.
\<close>

fun fire ::
  "string \<Rightarrow> (('v, 'e) resolver \<times> duration option \<times> int) list \<Rightarrow> ('v, 'e) event_loop
     \<Rightarrow> ('v, 'e) handle list \<times> ('v, 'e) event_loop" where
  "fire key [] s = ([], s)"
| "fire key ((resolver_fn, ttl_arg, now) # calls) s =
     (let (h, s1) = getOrCompute key resolver_fn ttl_arg now s;
          (hs, s2) = fire key calls s1
      in (h # hs, s2))"

text \<open>The event loop of a process that has just created its cache.\<close>

definition new_event_loop :: "duration option \<Rightarrow> ('v, 'e) event_loop" where
  "new_event_loop d =
     \<lparr>envCache = new_EnvironmentCache d, pending = Map.empty, settled = Map.empty,
      next_promise = 0, resolver_calls = []\<rparr>"

section \<open>Strings\<close>

text \<open>
  A JavaScript string is modelled as a list of characters with codes below 256. In that
  range the white space that \<^verbatim>\<open>trim()\<close> removes is the characters 9 to 13, the space
  and the no-break space, and the line terminators that \<^verbatim>\<open>.\<close> of a regular expression
  refuses are line feed and carriage return. The letters of the regular expressions below
  are ASCII letters; under the flag \<^verbatim>\<open>i\<close> such a letter matches its two cases and nothing
  else, which \<open>toLowerCase_char\<close> decides.
\<close>

definition js_whitespace :: "char \<Rightarrow> bool" where
  "js_whitespace c = (let n = (of_char c :: nat) in (9 \<le> n \<and> n \<le> 13) \<or> n = 32 \<or> n = 160)"

definition trim :: "string \<Rightarrow> string" where
  "trim s = rev (dropWhile js_whitespace (rev (dropWhile js_whitespace s)))"

definition line_terminator :: "char \<Rightarrow> bool" where
  "line_terminator c = (let n = (of_char c :: nat) in n = 10 \<or> n = 13)"

definition toLowerCase_char :: "char \<Rightarrow> char" where
  "toLowerCase_char c =
     (let n = (of_char c :: nat) in if 65 \<le> n \<and> n \<le> 90 then char_of (n + 32) else c)"

text \<open>
  The method \<^verbatim>\<open>s.toUpperCase()\<close> belongs to the language. Beyond the ASCII letters it
  follows the case mappings of Unicode, under which a character can leave the codes
  below 256 or become two characters (the sharp s becomes \<^verbatim>\<open>SS\<close>); it is a parameter
  \<open>toUpperCase\<close> of the functions that call it. The function below capitalises the ASCII
  letters and leaves every other character as it is: it is what \<^verbatim>\<open>toUpperCase()\<close> does on
  ASCII text, and serves as the parameter in the examples, whose names are ASCII.
\<close>

definition toUpperCase_ascii :: "string \<Rightarrow> string" where
  "toUpperCase_ascii s =
     map (\<lambda>c. let n = (of_char c :: nat) in if 97 \<le> n \<and> n \<le> 122 then char_of (n - 32) else c) s"

text \<open>\<^verbatim>\<open>s.startsWith(p)\<close> and \<^verbatim>\<open>s.includes(p)\<close>.\<close>

definition startsWith :: "string \<Rightarrow> string \<Rightarrow> bool" where
  "startsWith s p = (take (length p) s = p)"

fun js_includes :: "string \<Rightarrow> string \<Rightarrow> bool" where
  "js_includes [] p = (p = [])"
| "js_includes (c # cs) p = (startsWith (c # cs) p \<or> js_includes cs p)"

section \<open>Regular expressions of the placeholder patterns\<close>

text \<open>
  The patterns of \<^verbatim>\<open>validateApiKey\<close> are built from literal text, a character class,
  an optional item and \<^verbatim>\<open>.*\<close>; all start with \<^verbatim>\<open>^\<close>, some end with \<^verbatim>\<open>$\<close>, most carry
  the flag \<^verbatim>\<open>i\<close>.
\<close>

datatype rx = Lit string | OneOf string | Opt rx | DotStar

record regex =
  items :: "rx list"
  end_anchor :: bool
  ignoreCase :: bool

text \<open>
  \<open>rx_after ci r s\<close> lists what can remain of \<open>s\<close> after \<open>r\<close> has matched at its
  start; \<open>ci\<close> is the flag \<^verbatim>\<open>i\<close>.
\<close>

fun rx_after :: "bool \<Rightarrow> rx \<Rightarrow> string \<Rightarrow> string list" where
  "rx_after ci (Lit l) s =
     (let fold_case = (if ci then map toLowerCase_char else id) in
      if length l \<le> length s \<and> fold_case (take (length l) s) = fold_case l
      then [drop (length l) s] else [])"
| "rx_after ci (OneOf cs) s =
     (case s of [] \<Rightarrow> [] | c # rest \<Rightarrow> if c \<in> set cs then [rest] else [])"
| "rx_after ci (Opt r) s = s # rx_after ci r s"
| "rx_after ci DotStar s =
     map (\<lambda>k. drop k s) [0 ..< Suc (length (takeWhile (\<lambda>c. \<not> line_terminator c) s))]"

fun seq_after :: "bool \<Rightarrow> rx list \<Rightarrow> string \<Rightarrow> string list" where
  "seq_after ci [] s = [s]"
| "seq_after ci (r # rs) s = concat (map (seq_after ci rs) (rx_after ci r s))"

text \<open>\<^verbatim>\<open>pattern.test(s)\<close> for a pattern that starts with \<^verbatim>\<open>^\<close>.\<close>

definition regex_test :: "regex \<Rightarrow> string \<Rightarrow> bool" where
  "regex_test p s =
     (\<exists>rest \<in> set (seq_after (ignoreCase p) (items p) s). end_anchor p \<longrightarrow> rest = [])"

section \<open>API keys\<close>

text \<open>The list \<^verbatim>\<open>placeholderPatterns\<close>, in the order of the source.\<close>

definition placeholderPatterns :: "regex list" where
  "placeholderPatterns =
     [\<lparr>items = [Lit ''sk-ant-your-''], end_anchor = False, ignoreCase = False\<rparr>,
      \<lparr>items = [Lit ''your'', OneOf ''-_'', DotStar, OneOf ''-_'', Lit ''key'', OneOf ''-_'',
                 Lit ''here''], end_anchor = True, ignoreCase = True\<rparr>,
      \<lparr>items = [Lit ''your'', OneOf ''-_'', DotStar, OneOf ''-_'', Lit ''here''],
        end_anchor = True, ignoreCase = True\<rparr>,
      \<lparr>items = [Lit ''placeholder''], end_anchor = False, ignoreCase = True\<rparr>,
      \<lparr>items = [Lit ''dummy''], end_anchor = False, ignoreCase = True\<rparr>,
      \<lparr>items = [Lit ''test'', DotStar, Lit ''key''], end_anchor = False, ignoreCase = True\<rparr>,
      \<lparr>items = [Lit ''example''], end_anchor = False, ignoreCase = True\<rparr>,
      \<lparr>items = [Lit ''api'', Opt (OneOf ''_-''), Lit ''key''], end_anchor = False,
        ignoreCase = True\<rparr>,
      \<lparr>items = [Lit ''replace'', Opt (OneOf ''_-''), Lit ''me''], end_anchor = False,
        ignoreCase = True\<rparr>]"

text \<open>
  The test-mode condition of \<^verbatim>\<open>validateApiKey\<close>, read from the process environment
  directly.
\<close>

definition test_mode :: "env_vars \<Rightarrow> bool" where
  "test_mode process_env =
     (process_env ''NODE_ENV'' = Some ''test'' \<or> process_env ''TEST_MODE'' = Some ''true'')"

text \<open>\<^verbatim>\<open>validateApiKey(providerName, apiKey)\<close>; the provider name is not used.\<close>

definition validateApiKey :: "env_vars \<Rightarrow> string \<Rightarrow> string \<Rightarrow> bool" where
  "validateApiKey process_env providerName apiKey =
     (if apiKey = [] \<or> trim apiKey = [] then False
      else if test_mode process_env then
        \<not> js_includes apiKey ''your_'' \<and> \<not> js_includes apiKey ''_here''
        \<and> \<not> js_includes apiKey ''placeholder''
      else \<not> (\<exists>pattern \<in> set placeholderPatterns. regex_test pattern apiKey))"

section \<open>Provider configuration\<close>

text \<open>The enumeration \<^verbatim>\<open>ErrorCategory\<close> and the fields of a \<^verbatim>\<open>StandardError\<close> that
  callers branch on (the troubleshooting text and the time stamp are left out).\<close>

datatype ErrorCategory =
  CONFIGURATION | NETWORK | AUTHENTICATION | AUTHORIZATION | RATE_LIMIT | TIMEOUT
  | VALIDATION | PROVIDER | NOT_FOUND | CONFLICT | UNKNOWN

record StandardError =
  message :: string
  category :: ErrorCategory
  code :: string
  provider :: "string option"

text \<open>
  \<^verbatim>\<open>resolveEnvVariableCached(key)\<close>, over the process environment \<open>process_env\<close> at time
  \<open>now\<close>: the value and the cache afterwards. A cached \<^verbatim>\<open>undefined\<close> counts as a miss.
  The read \<^verbatim>\<open>process.env[key]\<close> is the variable's value for every key that is not the name
  of a member of \<^verbatim>\<open>Object.prototype\<close>. The keys that the functions below build are fixed
  names or end in \<^verbatim>\<open>_TEMPERATURE\<close>, \<^verbatim>\<open>_MODEL\<close> or \<^verbatim>\<open>_MODEL_DEFAULT\<close>, so none is such a
  name, and the provider table is taken to contain none.
\<close>

definition resolveEnvVariableCached ::
  "env_vars \<Rightarrow> int \<Rightarrow> string \<Rightarrow> string EnvironmentCache \<Rightarrow> string option \<times> string EnvironmentCache" where
  "resolveEnvVariableCached process_env now key c =
     (let cacheKey = ''env_'' @ key;
          (cached, c1) = EnvironmentCache_get cacheKey None now c
      in case cached of
           Some v \<Rightarrow> (Some v, c1)
         | None \<Rightarrow>
             (let v = process_env key
              in (v, EnvironmentCache_set cacheKey v None now c1)))"

text \<open>
  A JavaScript number: a real, one of the infinities or \<^verbatim>\<open>NaN\<close>. The conversion
  \<^verbatim>\<open>Number(text)\<close> belongs to the language and is a parameter of the model.
\<close>

datatype jsnum = Num real | PosInfinity | NegInfinity | NaN

definition isNaN :: "jsnum \<Rightarrow> bool" where
  "isNaN n = (n = NaN)"

fun js_le :: "jsnum \<Rightarrow> jsnum \<Rightarrow> bool" where
  "js_le NaN _ = False"
| "js_le _ NaN = False"
| "js_le NegInfinity _ = True"
| "js_le _ PosInfinity = True"
| "js_le (Num a) (Num b) = (a \<le> b)"
| "js_le PosInfinity _ = False"
| "js_le _ NegInfinity = False"

text \<open>
  One tier of \<^verbatim>\<open>getTemperature\<close>: the block
  \<^verbatim>\<open>if (v?.trim()) { const temp = Number(v.trim()); if (!isNaN(temp) && temp >= 0 && temp <= 2) return temp; }\<close>
  returns \<open>Some temp\<close> when it returns and \<open>None\<close> when control falls through.
\<close>

definition temperature_tier :: "(string \<Rightarrow> jsnum) \<Rightarrow> string option \<Rightarrow> jsnum option" where
  "temperature_tier Number v =
     (case v of
        None \<Rightarrow> None
      | Some text \<Rightarrow>
          if trim text = [] then None
          else (let temp = Number (trim text)
                in if \<not> isNaN temp \<and> js_le (Num 0) temp \<and> js_le temp (Num 2)
                   then Some temp else None))"

text \<open>\<^verbatim>\<open>getTemperature(providerName)\<close>: the number returned, or the error thrown.\<close>

definition getTemperature ::
  "(string \<Rightarrow> jsnum) \<Rightarrow> (string \<Rightarrow> string) \<Rightarrow> env_vars \<Rightarrow> int \<Rightarrow> string \<Rightarrow> string EnvironmentCache
     \<Rightarrow> (StandardError + jsnum) \<times> string EnvironmentCache" where
  "getTemperature Number toUpperCase process_env now providerName c =
     (let (providerValue, c1) =
            resolveEnvVariableCached process_env now (toUpperCase providerName @ ''_TEMPERATURE'') c
      in case temperature_tier Number providerValue of
           Some temp \<Rightarrow> (Inr temp, c1)
         | None \<Rightarrow>
             (let (globalValue, c2) = resolveEnvVariableCached process_env now ''LLM_TEMPERATURE'' c1
              in case temperature_tier Number globalValue of
                   Some temp \<Rightarrow> (Inr temp, c2)
                 | None \<Rightarrow>
                     (let (defaultValue, c3) =
                            resolveEnvVariableCached process_env now ''LLM_TEMPERATURE_DEFAULT'' c2
                      in case temperature_tier Number defaultValue of
                           Some temp \<Rightarrow> (Inr temp, c3)
                         | None \<Rightarrow>
                             (Inl \<lparr>message = ''Temperature configuration missing for '' @ providerName,
                                   category = CONFIGURATION, code = ''TEMPERATURE_NOT_SET'',
                                   provider = Some providerName\<rparr>, c3))))"

text \<open>
  The cache agrees with the process environment when every entry for a variable holds
  that variable's value or \<^verbatim>\<open>undefined\<close>: so it is when nothing but
  \<^verbatim>\<open>resolveEnvVariableCached\<close> has filled it and the environment has not changed since.
\<close>

definition cache_coherent :: "env_vars \<Rightarrow> string EnvironmentCache \<Rightarrow> bool" where
  "cache_coherent process_env c =
     (\<forall>key entry. cache c (''env_'' @ key) = Some entry \<longrightarrow>
        entry_value entry = None \<or> entry_value entry = process_env key)"

text \<open>A fragment of \<^verbatim>\<open>Number(text)\<close>, on the decimal literals that the examples use.\<close>

definition Number_fragment :: "string \<Rightarrow> jsnum" where
  "Number_fragment text =
     (if text = ''0.5'' then Num (1 / 2)
      else if text = ''0.9'' then Num (9 / 10)
      else if text = ''2.5'' then Num (5 / 2)
      else NaN)"

text \<open>\<^verbatim>\<open>s.split(sep)\<close> for a separator of one character; the result is never empty.\<close>

fun split_on :: "char \<Rightarrow> string \<Rightarrow> string list" where
  "split_on sep [] = [[]]"
| "split_on sep (c # cs) =
     (if c = sep then [] # split_on sep cs
      else (case split_on sep cs of [] \<Rightarrow> [[c]] | piece # pieces \<Rightarrow> (c # piece) # pieces))"

text \<open>
  The tables \<^verbatim>\<open>SUPPORTED_PROVIDERS\<close> and \<^verbatim>\<open>PROVIDER_API_KEYS\<close> come from the module
  \<^verbatim>\<open>ai-providers/index.js\<close>, which is not among the sources at hand: the functions below
  take them as the parameters \<open>supported\<close> and \<open>api_keys\<close>.
\<close>

text \<open>\<^verbatim>\<open>getApiKey(providerName)\<close>.\<close>

definition getApiKey ::
  "(string \<rightharpoonup> string) \<Rightarrow> env_vars \<Rightarrow> int \<Rightarrow> string \<Rightarrow> string EnvironmentCache
     \<Rightarrow> string option \<times> string EnvironmentCache" where
  "getApiKey api_keys process_env now providerName c =
     (case api_keys providerName of
        None \<Rightarrow> (None, c)
      | Some envKey \<Rightarrow>
          if envKey = [] then (None, c)
          else (let (apiKey, c1) = resolveEnvVariableCached process_env now envKey c
                in case apiKey of
                     None \<Rightarrow> (None, c1)
                   | Some k \<Rightarrow> if k = [] \<or> trim k = [] then (None, c1) else (Some (trim k), c1)))"

text \<open>\<^verbatim>\<open>getModel(providerName)\<close>.\<close>

definition getModel ::
  "(string \<Rightarrow> string) \<Rightarrow> env_vars \<Rightarrow> int \<Rightarrow> string \<Rightarrow> string EnvironmentCache
     \<Rightarrow> (StandardError + string) \<times> string EnvironmentCache" where
  "getModel toUpperCase process_env now providerName c =
     (let (userModel, c1) =
            resolveEnvVariableCached process_env now (toUpperCase providerName @ ''_MODEL'') c
      in if (case userModel of Some m \<Rightarrow> trim m \<noteq> [] | None \<Rightarrow> False)
         then (Inr (trim (the userModel)), c1)
         else (let (defaultModel, c2) =
                     resolveEnvVariableCached process_env now
                       (toUpperCase providerName @ ''_MODEL_DEFAULT'') c1
               in if (case defaultModel of Some m \<Rightarrow> trim m \<noteq> [] | None \<Rightarrow> False)
                  then (Inr (trim (the defaultModel)), c2)
                  else (Inl \<lparr>message = ''Model configuration missing for '' @ providerName,
                             category = CONFIGURATION, code = ''MODEL_NOT_SET'',
                             provider = Some providerName\<rparr>, c2)))"

text \<open>\<^verbatim>\<open>getDefaultProvider()\<close>.\<close>

definition getDefaultProvider ::
  "env_vars \<Rightarrow> int \<Rightarrow> string EnvironmentCache
     \<Rightarrow> (StandardError + string) \<times> string EnvironmentCache" where
  "getDefaultProvider process_env now c =
     (let (p, c1) = resolveEnvVariableCached process_env now ''DEFAULT_LLM_PROVIDER'' c
      in if (case p of Some d \<Rightarrow> trim d = [] | None \<Rightarrow> True)
         then (Inl \<lparr>message = ''Default provider configuration missing'',
                    category = CONFIGURATION, code = ''DEFAULT_PROVIDER_NOT_SET'',
                    provider = None\<rparr>, c1)
         else (Inr (trim (the p)), c1))"

text \<open>\<^verbatim>\<open>isProviderConfigured(providerName)\<close>.\<close>

definition isProviderConfigured ::
  "(string \<rightharpoonup> string) \<Rightarrow> env_vars \<Rightarrow> int \<Rightarrow> string \<Rightarrow> string EnvironmentCache
     \<Rightarrow> bool \<times> string EnvironmentCache" where
  "isProviderConfigured api_keys process_env now providerName c =
     (let (apiKey, c1) = getApiKey api_keys process_env now providerName c
      in (case apiKey of
            Some k \<Rightarrow> validateApiKey process_env providerName k
          | None \<Rightarrow> False, c1))"

text \<open>An element of the array that \<^verbatim>\<open>getConfiguredProviders()\<close> returns.\<close>

record ConfiguredProvider =
  provider_name :: string
  provider_model :: "string option"
  provider_hasApiKey :: bool

text \<open>\<^verbatim>\<open>getConfiguredProviders()\<close>: the loop over \<^verbatim>\<open>SUPPORTED_PROVIDERS\<close>.\<close>

fun getConfiguredProviders ::
  "(string \<Rightarrow> string) \<Rightarrow> (string \<rightharpoonup> string) \<Rightarrow> env_vars \<Rightarrow> int \<Rightarrow> string list \<Rightarrow> string EnvironmentCache
     \<Rightarrow> (StandardError + ConfiguredProvider list) \<times> string EnvironmentCache" where
  "getConfiguredProviders toUpperCase api_keys process_env now [] c = (Inr [], c)"
| "getConfiguredProviders toUpperCase api_keys process_env now (n # rest) c =
     (let (apiKey, c1) = getApiKey api_keys process_env now n c;
          hasApiKey = (case apiKey of Some k \<Rightarrow> validateApiKey process_env n k | None \<Rightarrow> False);
          (model, c2) = (if hasApiKey
                         then (case getModel toUpperCase process_env now n c1 of
                                 (Inl e, c') \<Rightarrow> (Inl e, c')
                               | (Inr m, c') \<Rightarrow> (Inr (Some m), c'))
                         else (Inr None, c1))
      in case model of
           Inl e \<Rightarrow> (Inl e, c2)
         | Inr m \<Rightarrow>
             (case getConfiguredProviders toUpperCase api_keys process_env now rest c2 of
                (Inl e, c3) \<Rightarrow> (Inl e, c3)
              | (Inr providers, c3) \<Rightarrow>
                  (Inr (\<lparr>provider_name = n, provider_model = m, provider_hasApiKey = hasApiKey\<rparr>
                        # providers), c3)))"

text \<open>The expression \<^verbatim>\<open>getConfiguredProviders().filter((p) => p.hasApiKey).map((p) => p.name)\<close>.\<close>

definition configured_names ::
  "(string \<Rightarrow> string) \<Rightarrow> (string \<rightharpoonup> string) \<Rightarrow> env_vars \<Rightarrow> int \<Rightarrow> string list \<Rightarrow> string EnvironmentCache
     \<Rightarrow> (StandardError + string list) \<times> string EnvironmentCache" where
  "configured_names toUpperCase api_keys process_env now supported c =
     (case getConfiguredProviders toUpperCase api_keys process_env now supported c of
        (Inl e, c1) \<Rightarrow> (Inl e, c1)
      | (Inr providers, c1) \<Rightarrow> (Inr (map provider_name (filter provider_hasApiKey providers)), c1))"

text \<open>
  \<^verbatim>\<open>getProviderPriority()\<close>. An error thrown inside the \<^verbatim>\<open>try\<close> block of the fallback is
  caught, and the \<^verbatim>\<open>catch\<close> block computes the configured providers once more.
\<close>

definition getProviderPriority ::
  "(string \<Rightarrow> string) \<Rightarrow> string list \<Rightarrow> (string \<rightharpoonup> string) \<Rightarrow> env_vars \<Rightarrow> int \<Rightarrow> string EnvironmentCache
     \<Rightarrow> (StandardError + string list) \<times> string EnvironmentCache" where
  "getProviderPriority toUpperCase supported api_keys process_env now c =
     (let (priority, c1) = resolveEnvVariableCached process_env now ''PROVIDER_SELECTION_PRIORITY'' c;
          providers = (case priority of
                         None \<Rightarrow> []
                       | Some p \<Rightarrow> if trim p = [] then []
                                  else filter (\<lambda>q. length q > 0) (map trim (split_on CHR '','' p)))
      in if providers \<noteq> [] then
           (let invalidProviders = filter (\<lambda>q. q \<notin> set supported) providers
            in if invalidProviders \<noteq> [] then
                 (Inl \<lparr>message = ''Invalid providers in priority configuration: ''
                              @ concat (map (\<lambda>q. q @ '', '') (butlast invalidProviders))
                              @ last invalidProviders,
                       category = CONFIGURATION, code = ''INVALID_PROVIDERS'', provider = None\<rparr>, c1)
               else (Inr providers, c1))
         else
           (case getDefaultProvider process_env now c1 of
              (Inl e, c2) \<Rightarrow> configured_names toUpperCase api_keys process_env now supported c2
            | (Inr defaultProvider, c2) \<Rightarrow>
                (case configured_names toUpperCase api_keys process_env now supported c2 of
                   (Inl e, c3) \<Rightarrow> configured_names toUpperCase api_keys process_env now supported c3
                 | (Inr configuredProviders, c3) \<Rightarrow>
                     (Inr (defaultProvider # filter (\<lambda>q. q \<noteq> defaultProvider) configuredProviders),
                      c3))))"

text \<open>The \<^verbatim>\<open>for\<close> loop of \<^verbatim>\<open>getBestAvailableProvider\<close> over the priority list.\<close>

fun first_configured ::
  "(string \<rightharpoonup> string) \<Rightarrow> env_vars \<Rightarrow> int \<Rightarrow> string list \<Rightarrow> string EnvironmentCache
     \<Rightarrow> string option \<times> string EnvironmentCache" where
  "first_configured api_keys process_env now [] c = (None, c)"
| "first_configured api_keys process_env now (p # ps) c =
     (let (configured, c1) = isProviderConfigured api_keys process_env now p c
      in if configured then (Some p, c1)
         else first_configured api_keys process_env now ps c1)"

text \<open>
  \<^verbatim>\<open>getBestAvailableProvider()\<close>: the provider name, \<open>None\<close> for \<^verbatim>\<open>null\<close>, or the error
  thrown.
\<close>

definition getBestAvailableProvider ::
  "(string \<Rightarrow> string) \<Rightarrow> string list \<Rightarrow> (string \<rightharpoonup> string) \<Rightarrow> env_vars \<Rightarrow> int \<Rightarrow> string EnvironmentCache
     \<Rightarrow> (StandardError + string option) \<times> string EnvironmentCache" where
  "getBestAvailableProvider toUpperCase supported api_keys process_env now c =
     (case getDefaultProvider process_env now c of
        (Inl e, c1) \<Rightarrow> (Inl e, c1)
      | (Inr defaultProvider, c1) \<Rightarrow>
          (let (configured, c2) =
                 (if defaultProvider \<noteq> []
                  then isProviderConfigured api_keys process_env now defaultProvider c1
                  else (False, c1))
           in if configured then (Inr (Some defaultProvider), c2)
              else (case getProviderPriority toUpperCase supported api_keys process_env now c2 of
                      (Inl e, c3) \<Rightarrow> (Inl e, c3)
                    | (Inr providerPriority, c3) \<Rightarrow>
                        (let (found, c4) = first_configured api_keys process_env now providerPriority c3
                         in (Inr found, c4)))))"

text \<open>
  The provider tables that the examples use: three of the documented providers, each with
  the variable \<^verbatim>\<open>{PROVIDER}_API_KEY\<close>.
\<close>

definition example_providers :: "string list" where
  "example_providers = [''openai'', ''anthropic'', ''google'']"

definition example_api_keys :: "string \<rightharpoonup> string" where
  "example_api_keys =
     [''openai'' \<mapsto> ''OPENAI_API_KEY'', ''anthropic'' \<mapsto> ''ANTHROPIC_API_KEY'',
      ''google'' \<mapsto> ''GOOGLE_API_KEY'']"

text \<open>
  Whether a provider is configured, read off the process environment: its key variable
  holds a value that is not blank and that \<^verbatim>\<open>validateApiKey\<close> accepts after trimming.
\<close>

definition configured :: "(string \<rightharpoonup> string) \<Rightarrow> env_vars \<Rightarrow> string \<Rightarrow> bool" where
  "configured api_keys process_env providerName =
     (case api_keys providerName of
        None \<Rightarrow> False
      | Some envKey \<Rightarrow>
          envKey \<noteq> [] \<and>
          (case process_env envKey of
             None \<Rightarrow> False
           | Some k \<Rightarrow> trim k \<noteq> [] \<and> validateApiKey process_env providerName (trim k)))"

section \<open>Reading slices of text files\<close>


definition newline :: char where
  "newline = CHR 0x0A"

definition read_at :: "string \<Rightarrow> nat \<Rightarrow> nat \<Rightarrow> string" where
  "read_at content pos n = take n (drop pos content)"

text \<open>\<^verbatim>\<open>xs.join("\n")\<close>, \<^verbatim>\<open>s.lastIndexOf("\n")\<close> (\<open>None\<close> for -1) and \<^verbatim>\<open>xs.slice(-n)\<close>.\<close>

fun join_lines :: "string list \<Rightarrow> string" where
  "join_lines [] = []"
| "join_lines [l] = l"
| "join_lines (l # ls) = l @ newline # join_lines ls"

fun lastIndexOf :: "string \<Rightarrow> char \<Rightarrow> nat option" where
  "lastIndexOf [] ch = None"
| "lastIndexOf (c # cs) ch =
     (case lastIndexOf cs ch of
        Some i \<Rightarrow> Some (Suc i)
      | None \<Rightarrow> if c = ch then Some 0 else None)"

definition slice_last :: "nat \<Rightarrow> 'a list \<Rightarrow> 'a list" where
  "slice_last n xs = (if n = 0 then xs else drop (length xs - n) xs)"

text \<open>The buffer size of \<^verbatim>\<open>headFile\<close>, \<^verbatim>\<open>tailFile\<close> and \<^verbatim>\<open>rangeFile\<close>: 1 KB.\<close>

definition CHUNK_SIZE :: nat where
  "CHUNK_SIZE = 1024"

text \<open>
  The \<^verbatim>\<open>while\<close> loop of \<^verbatim>\<open>headFile\<close>: the state is
  \<^verbatim>\<open>lines\<close>, \<^verbatim>\<open>buffer\<close> and \<^verbatim>\<open>bytesRead\<close>.
\<close>

function headFile_loop ::
  "(string \<Rightarrow> string) \<Rightarrow> nat \<Rightarrow> string \<Rightarrow> string list \<Rightarrow> string \<Rightarrow> nat \<Rightarrow> string list \<times> string" where
  "headFile_loop utf8 numLines content lines buffer bytesRead =
     (if length lines < numLines then
        (let chunk = read_at content bytesRead CHUNK_SIZE in
         if length chunk = 0 then (lines, buffer)
         else
           (let bytesRead' = bytesRead + length chunk;
                buffer' = buffer @ utf8 chunk
            in case lastIndexOf buffer' newline of
                 None \<Rightarrow> headFile_loop utf8 numLines content lines buffer' bytesRead'
               | Some newLineIndex \<Rightarrow>
                   (let lines' = lines @ split_on newline (take newLineIndex buffer');
                        buffer'' = drop (newLineIndex + 1) buffer'
                    in if length lines' \<ge> numLines then (lines', buffer'')
                       else headFile_loop utf8 numLines content lines' buffer'' bytesRead')))
      else (lines, buffer))"
  by pat_completeness auto
termination
  by (relation "measure (\<lambda>(utf8, numLines, content, lines, buffer, bytesRead).
        length content - bytesRead)")
    (auto simp: read_at_def CHUNK_SIZE_def)

text \<open>\<^verbatim>\<open>headFile\<close> on the content of the opened file.\<close>

definition headFile :: "(string \<Rightarrow> string) \<Rightarrow> string \<Rightarrow> nat \<Rightarrow> string" where
  "headFile utf8 content numLines =
     (let (lines, buffer) = headFile_loop utf8 numLines content [] [] 0;
          lines' = (if length buffer > 0 \<and> length lines < numLines then lines @ [buffer] else lines)
      in join_lines (take numLines lines'))"

text \<open>
  The \<^verbatim>\<open>for\<close> loop of \<^verbatim>\<open>tailFile\<close> over \<^verbatim>\<open>parts[parts.length - 1], ..., parts[1]\<close>,
  given in this order.
\<close>

fun tailFile_unshift ::
  "nat \<Rightarrow> string list \<Rightarrow> string list \<Rightarrow> nat \<Rightarrow> string list \<times> nat" where
  "tailFile_unshift numLines [] lines linesFound = (lines, linesFound)"
| "tailFile_unshift numLines (part # parts) lines linesFound =
     (if linesFound + 1 \<ge> numLines then (part # lines, linesFound + 1)
      else tailFile_unshift numLines parts (part # lines) (linesFound + 1))"

text \<open>
  The \<^verbatim>\<open>while\<close> loop of \<^verbatim>\<open>tailFile\<close>: the state is \<^verbatim>\<open>lines\<close>, \<^verbatim>\<open>position\<close>,
  \<^verbatim>\<open>linesFound\<close> and \<^verbatim>\<open>remainingText\<close>.
\<close>

function tailFile_loop ::
  "(string \<Rightarrow> string) \<Rightarrow> nat \<Rightarrow> string \<Rightarrow> string list \<Rightarrow> nat \<Rightarrow> nat \<Rightarrow> string
     \<Rightarrow> string list \<times> nat \<times> string" where
  "tailFile_loop utf8 numLines content lines position linesFound remainingText =
     (if position > 0 \<and> linesFound < numLines then
        (let chunkSize = min CHUNK_SIZE position;
             position' = position - chunkSize;
             text = utf8 (read_at content position' chunkSize);
             combined = text @ remainingText;
             parts = split_on newline combined;
             remainingText' = hd parts;
             (lines', linesFound') = tailFile_unshift numLines (rev (tl parts)) lines linesFound
         in tailFile_loop utf8 numLines content lines' position' linesFound' remainingText')
      else (lines, linesFound, remainingText))"
  by pat_completeness auto
termination
  by (relation "measure (\<lambda>(utf8, numLines, content, lines, position, linesFound,
        remainingText). position)")
    (auto simp: CHUNK_SIZE_def)

definition tailFile :: "(string \<Rightarrow> string) \<Rightarrow> string \<Rightarrow> nat \<Rightarrow> string" where
  "tailFile utf8 content numLines =
     (let fileSize = length content in
      if fileSize = 0 then []
      else
        (let (lines, linesFound, remainingText) =
               tailFile_loop utf8 numLines content [] fileSize 0 [];
             lines' = (if linesFound < numLines \<and> length remainingText > 0
                       then remainingText # lines else lines)
         in join_lines (slice_last numLines lines')))"

text \<open>The \<^verbatim>\<open>for\<close> loop of \<^verbatim>\<open>rangeFile\<close> over the complete lines of the buffer.\<close>

fun rangeFile_collect ::
  "nat \<Rightarrow> nat \<Rightarrow> string list \<Rightarrow> string list \<Rightarrow> nat \<Rightarrow> string list \<times> nat" where
  "rangeFile_collect startLine endLine [] targetLines currentLineNumber =
     (targetLines, currentLineNumber)"
| "rangeFile_collect startLine endLine (line # lines) targetLines currentLineNumber =
     (let n = currentLineNumber + 1;
          targetLines' = (if n \<ge> startLine \<and> n \<le> endLine then targetLines @ [line]
                          else targetLines)
      in if n \<ge> endLine then (targetLines', n)
         else rangeFile_collect startLine endLine lines targetLines' n)"

text \<open>
  The \<^verbatim>\<open>while\<close> loop of \<^verbatim>\<open>rangeFile\<close>: the state is \<^verbatim>\<open>targetLines\<close>,
  \<^verbatim>\<open>currentLineNumber\<close>, \<^verbatim>\<open>buffer\<close> and \<^verbatim>\<open>bytesRead\<close>; the result is \<^verbatim>\<open>targetLines\<close>.
\<close>

function rangeFile_loop ::
  "(string \<Rightarrow> string) \<Rightarrow> nat \<Rightarrow> nat \<Rightarrow> string \<Rightarrow> string list \<Rightarrow> nat \<Rightarrow> string \<Rightarrow> nat \<Rightarrow> string list" where
  "rangeFile_loop utf8 startLine endLine content targetLines currentLineNumber buffer bytesRead =
     (if currentLineNumber < endLine then
        (let chunk = read_at content bytesRead CHUNK_SIZE in
         if length chunk = 0 then
           (if length buffer > 0
            then (if currentLineNumber + 1 \<ge> startLine \<and> currentLineNumber + 1 \<le> endLine
                  then targetLines @ [buffer] else targetLines)
            else targetLines)
         else
           (let bytesRead' = bytesRead + length chunk;
                buffer' = buffer @ utf8 chunk
            in case lastIndexOf buffer' newline of
                 None \<Rightarrow> rangeFile_loop utf8 startLine endLine content targetLines
                           currentLineNumber buffer' bytesRead'
               | Some newLineIndex \<Rightarrow>
                   (let lines = split_on newline (take newLineIndex buffer');
                        buffer'' = drop (newLineIndex + 1) buffer';
                        (targetLines', currentLineNumber') =
                          rangeFile_collect startLine endLine lines targetLines currentLineNumber
                    in rangeFile_loop utf8 startLine endLine content targetLines'
                         currentLineNumber' buffer'' bytesRead')))
      else targetLines)"
  by pat_completeness auto
termination
  by (relation "measure (\<lambda>(utf8, startLine, endLine, content, targetLines, currentLineNumber,
        buffer, bytesRead). length content - bytesRead)")
    (auto simp: read_at_def CHUNK_SIZE_def)

definition rangeFile ::
  "(string \<Rightarrow> string) \<Rightarrow> string \<Rightarrow> nat \<Rightarrow> nat \<Rightarrow> string" where
  "rangeFile utf8 content startLine endLine =
     join_lines (rangeFile_loop utf8 startLine endLine content [] 0 [] 0)"

text \<open>
  The reference: read the whole file as text (\<^verbatim>\<open>fs.readFile(path, "utf-8")\<close>, the argument
  \<open>content\<close> of the functions below), split the text at the newlines and slice the list.
\<close>

definition reference_lines :: "string \<Rightarrow> string list" where
  "reference_lines content = split_on newline content"




declare headFile_loop.simps [simp del] tailFile_loop.simps [simp del] rangeFile_loop.simps [simp del]

text \<open>
  The lines of a text, when a newline at the very end of the text ends the last line
  instead of opening one more, empty line; an empty text then has no line.
\<close>

definition file_lines :: "string \<Rightarrow> string list" where
  "file_lines content =
     (let pieces = reference_lines content
      in if last pieces = [] then butlast pieces else pieces)"

section \<open>The read tools\<close>

text \<open>
  The arguments of a read request (\<^verbatim>\<open>ReadFileArgs\<close>); the field names carry a prefix,
  since the interfaces of the source share their field names. A number is an integer
  here: the schema refuses every other number.
\<close>

datatype read_mode = ModeFull | ModeHead | ModeTail | ModeRange

record ReadFileArgs =
  arg_path :: string
  arg_mode :: "read_mode option"
  arg_lines :: "int option"
  arg_startLine :: "int option"
  arg_endLine :: "int option"

text \<open>\<^verbatim>\<open>ReadFileResult\<close>, and an element of \<^verbatim>\<open>ReadMultipleFilesResult.results\<close>.\<close>

record ReadFileResult =
  read_success :: bool
  read_content :: "string option"
  read_error :: "string option"

record FileSlot =
  slot_path :: string
  slot_content :: "string option"
  slot_error :: "string option"

record ReadMultipleFilesResult =
  batch_success :: bool
  batch_results :: "FileSlot list"

text \<open>
  What the model takes from the platform: the message of the error that the schema
  library throws for given arguments; the decoding \<^verbatim>\<open>toString("utf-8")\<close> of bytes and the
  number of bytes \<^verbatim>\<open>Buffer.byteLength(text, "utf8")\<close> of a text; the method
  \<^verbatim>\<open>toLowerCase()\<close>; the text of a number in a template literal; the path functions
  \<^verbatim>\<open>isAbsolute\<close> and \<^verbatim>\<open>resolve\<close>; and the text of the file-size message (from the number
  of bytes and the limit in KB).
\<close>

record platform =
  zod_message :: "ReadFileArgs \<Rightarrow> string"
  toString_utf8 :: "string \<Rightarrow> string"
  byteLength_utf8 :: "string \<Rightarrow> nat"
  toLowerCase :: "string \<Rightarrow> string"
  number_text :: "int \<Rightarrow> string"
  isAbsolute :: "string \<Rightarrow> bool"
  resolve :: "string \<Rightarrow> string \<Rightarrow> string"
  file_size_message :: "nat \<Rightarrow> real \<Rightarrow> string"

text \<open>
  The file system: for each path, the content of the file or the message of the error
  that opening or reading it raises.
\<close>

type_synonym file_system = "string \<Rightarrow> string + string"

text \<open>The fields \<^verbatim>\<open>z.number().positive().int().optional()\<close>.\<close>

definition positive_optional :: "int option \<Rightarrow> bool" where
  "positive_optional v = (case v of None \<Rightarrow> True | Some n \<Rightarrow> n > 0)"

text \<open>\<^verbatim>\<open>!v\<close> for an optional number: undefined or zero.\<close>

definition falsy :: "int option \<Rightarrow> bool" where
  "falsy v = (case v of None \<Rightarrow> True | Some n \<Rightarrow> n = 0)"

text \<open>The refinement of \<^verbatim>\<open>ReadFileArgsSchema\<close>, on the data with the default mode set.\<close>

definition refine_ok :: "ReadFileArgs \<Rightarrow> bool" where
  "refine_ok d =
     (if (arg_mode d = Some ModeHead \<or> arg_mode d = Some ModeTail)
         \<and> (falsy (arg_lines d) \<or> arg_startLine d \<noteq> None \<or> arg_endLine d \<noteq> None)
      then False
      else if arg_mode d = Some ModeRange
         \<and> (falsy (arg_startLine d) \<or> falsy (arg_endLine d)
            \<or> the (arg_startLine d) > the (arg_endLine d) \<or> arg_lines d \<noteq> None)
      then False
      else if arg_mode d = Some ModeFull
         \<and> (arg_lines d \<noteq> None \<or> arg_startLine d \<noteq> None \<or> arg_endLine d \<noteq> None)
      then False
      else True)"

text \<open>
  \<^verbatim>\<open>ReadFileArgsSchema.parse(args)\<close>: the validated data, or \<open>None\<close> when it throws.
\<close>

definition ReadFileArgsSchema_parse :: "ReadFileArgs \<Rightarrow> ReadFileArgs option" where
  "ReadFileArgsSchema_parse args =
     (let d = args\<lparr>arg_mode := Some (case arg_mode args of None \<Rightarrow> ModeFull | Some m \<Rightarrow> m)\<rparr>
      in if positive_optional (arg_lines args) \<and> positive_optional (arg_startLine args)
            \<and> positive_optional (arg_endLine args) \<and> refine_ok d
         then Some d else None)"

text \<open>
  \<^verbatim>\<open>ReadMultipleFilesArgsSchema.parse(args)\<close>, on the array \<^verbatim>\<open>files\<close>: at least 1 and at
  most 50 requests, each accepted by the schema of a single request.
\<close>

definition ReadMultipleFilesArgsSchema_parse :: "ReadFileArgs list \<Rightarrow> ReadFileArgs list option" where
  "ReadMultipleFilesArgsSchema_parse files =
     (if length files \<ge> 1 \<and> length files \<le> 50
         \<and> (\<forall>request \<in> set files. ReadFileArgsSchema_parse request \<noteq> None)
      then Some (map (\<lambda>request. the (ReadFileArgsSchema_parse request)) files)
      else None)"

text \<open>
  A read of the file at a path with a function of its content: the result, and the
  paths accessed.
\<close>

definition read_with ::
  "file_system \<Rightarrow> string \<Rightarrow> (string \<Rightarrow> string) \<Rightarrow> ReadFileResult \<times> string list" where
  "read_with fs path f =
     (case fs path of
        Inl msg \<Rightarrow> (\<lparr>read_success = False, read_content = None, read_error = Some msg\<rparr>, [path])
      | Inr content \<Rightarrow>
          (\<lparr>read_success = True, read_content = Some (f content), read_error = None\<rparr>, [path]))"

definition read_failure :: "string \<Rightarrow> ReadFileResult \<times> string list" where
  "read_failure msg = (\<lparr>read_success = False, read_content = None, read_error = Some msg\<rparr>, [])"

text \<open>A word between apostrophes, as the messages of the source have it.\<close>

definition quoted :: "string \<Rightarrow> string" where
  "quoted w = CHR 0x27 # w @ [CHR 0x27]"

text \<open>\<^verbatim>\<open>readSingleFile(args)\<close>: the result and the paths accessed.\<close>

definition readSingleFile ::
  "platform \<Rightarrow> file_system \<Rightarrow> ReadFileArgs \<Rightarrow> ReadFileResult \<times> string list" where
  "readSingleFile js fs args =
     (case ReadFileArgsSchema_parse args of
        None \<Rightarrow> read_failure (zod_message js args)
      | Some validated \<Rightarrow>
          (case arg_mode validated of
             Some ModeHead \<Rightarrow>
               if falsy (arg_lines validated)
               then read_failure (quoted ''lines'' @ '' parameter required for head mode'')
               else read_with fs (arg_path validated)
                      (\<lambda>content. headFile (toString_utf8 js) content
                                   (nat (the (arg_lines validated))))
           | Some ModeTail \<Rightarrow>
               if falsy (arg_lines validated)
               then read_failure (quoted ''lines'' @ '' parameter required for tail mode'')
               else read_with fs (arg_path validated)
                      (\<lambda>content. tailFile (toString_utf8 js) content
                                   (nat (the (arg_lines validated))))
           | Some ModeRange \<Rightarrow>
               if falsy (arg_startLine validated) \<or> falsy (arg_endLine validated)
               then read_failure
                      (quoted ''startLine'' @ '' and '' @ quoted ''endLine''
                       @ '' parameters required for range mode'')
               else read_with fs (arg_path validated)
                      (\<lambda>content. rangeFile (toString_utf8 js) content
                                   (nat (the (arg_startLine validated)))
                                   (nat (the (arg_endLine validated))))
           | _ \<Rightarrow> read_with fs (arg_path validated) (\<lambda>content. toString_utf8 js content)))"

text \<open>\<^verbatim>\<open>readFileTool(args)\<close>.\<close>

definition readFileTool ::
  "platform \<Rightarrow> file_system \<Rightarrow> ReadFileArgs \<Rightarrow> ReadFileResult \<times> string list" where
  "readFileTool js fs args = readSingleFile js fs args"

text \<open>
  \<^verbatim>\<open>readMultipleFilesTool(args)\<close>, on the array \<^verbatim>\<open>args.files\<close>: the result and the paths
  of the files that its reads open, listed by request (the reads themselves run
  concurrently; each delivers into the slot of its request).
\<close>

definition readMultipleFilesTool ::
  "platform \<Rightarrow> file_system \<Rightarrow> ReadFileArgs list \<Rightarrow> ReadMultipleFilesResult \<times> string list" where
  "readMultipleFilesTool js fs files =
     (case ReadMultipleFilesArgsSchema_parse files of
        None \<Rightarrow> (\<lparr>batch_success = False, batch_results = []\<rparr>, [])
      | Some validated \<Rightarrow>
          (\<lparr>batch_success = True,
            batch_results =
              map (\<lambda>fileRequest.
                     (let result = fst (readSingleFile js fs fileRequest)
                      in \<lparr>slot_path = arg_path fileRequest, slot_content = read_content result,
                          slot_error = read_error result\<rparr>)) validated\<rparr>,
           concat (map (\<lambda>fileRequest. snd (readSingleFile js fs fileRequest)) validated)))"

text \<open>The slice of a file's content that validated arguments ask for.\<close>

definition requested_slice :: "(string \<Rightarrow> string) \<Rightarrow> ReadFileArgs \<Rightarrow> string \<Rightarrow> string" where
  "requested_slice utf8 validated content =
     (case arg_mode validated of
        Some ModeHead \<Rightarrow> headFile utf8 content (nat (the (arg_lines validated)))
      | Some ModeTail \<Rightarrow> tailFile utf8 content (nat (the (arg_lines validated)))
      | Some ModeRange \<Rightarrow> rangeFile utf8 content (nat (the (arg_startLine validated)))
                            (nat (the (arg_endLine validated)))
      | _ \<Rightarrow> utf8 content)"

text \<open>Two texts for the examples: three short lines, and lines that lie across chunks.\<close>

definition example_text :: string where
  "example_text = ''one'' @ newline # ''two'' @ newline # ''three''"


section \<open>Targeted analysis\<close>

text \<open>
  The part of \<^verbatim>\<open>ToolCallingConfig\<close> that the read path consults.
\<close>

record ToolCallingConfig =
  readFile_enabled :: bool
  maxFileSizeKB :: real
  allowedFileExtensions :: "string list"

text \<open>
  \<^verbatim>\<open>getFileExtension(filePath)\<close>: the last of the pieces between the dots of the path
  (the whole path when it has no dot), in lower case and with a dot in front, or the
  empty text when that piece is empty.
\<close>

definition getFileExtension :: "platform \<Rightarrow> string \<Rightarrow> string" where
  "getFileExtension js filePath =
     (let ext = toLowerCase js (last (split_on CHR ''.'' filePath))
      in if ext = [] then [] else CHR ''.'' # ext)"

text \<open>\<^verbatim>\<open>xs.join(", ")\<close>.\<close>

fun join_comma :: "string list \<Rightarrow> string" where
  "join_comma [] = []"
| "join_comma [x] = x"
| "join_comma (x # xs) = x @ '', '' @ join_comma xs"

text \<open>The result of \<^verbatim>\<open>ToolCallingService.readMultipleFiles\<close>.\<close>

record ServiceResult =
  service_success :: bool
  service_results :: "FileSlot list"
  service_error :: "string option"

text \<open>
  The size check on one slot: a content that is not empty and larger than the limit is
  replaced by an error.
\<close>

definition size_checked :: "platform \<Rightarrow> ToolCallingConfig \<Rightarrow> FileSlot \<Rightarrow> FileSlot" where
  "size_checked js config slot =
     (case slot_content slot of
        None \<Rightarrow> slot
      | Some content \<Rightarrow>
          if content \<noteq> [] \<and> real (byteLength_utf8 js content) / 1024 > maxFileSizeKB config
          then slot\<lparr>slot_error :=
                      Some (file_size_message js (byteLength_utf8 js content) (maxFileSizeKB config)),
                    slot_content := None\<rparr>
          else slot)"

text \<open>
  \<^verbatim>\<open>ToolCallingService.readMultipleFiles(files)\<close>: the result and the paths of the files
  opened. The call of the read tool stands in a \<^verbatim>\<open>try\<close> block, whose \<^verbatim>\<open>catch\<close> is never
  reached: the read tool catches every error itself.
\<close>

definition ToolCallingService_readMultipleFiles ::
  "platform \<Rightarrow> ToolCallingConfig \<Rightarrow> file_system \<Rightarrow> ReadFileArgs list
     \<Rightarrow> ServiceResult \<times> string list" where
  "ToolCallingService_readMultipleFiles js config fs files =
     (if \<not> readFile_enabled config
      then (\<lparr>service_success = False, service_results = [],
             service_error = Some ''File reading is disabled in configuration''\<rparr>, [])
      else
        (case find (\<lambda>fileRequest. getFileExtension js (arg_path fileRequest)
                       \<notin> set (allowedFileExtensions config)) files of
           Some fileRequest \<Rightarrow>
             (\<lparr>service_success = False, service_results = [],
               service_error =
                 Some (''File extension '' @ quoted (getFileExtension js (arg_path fileRequest))
                       @ '' is not allowed for '' @ arg_path fileRequest
                       @ ''. Allowed extensions: '' @ join_comma (allowedFileExtensions config))\<rparr>,
              [])
         | None \<Rightarrow>
             (let (result, opened) = readMultipleFilesTool js fs files
              in (\<lparr>service_success = batch_success result,
                   service_results = map (size_checked js config) (batch_results result),
                   service_error = None\<rparr>, opened))))"

text \<open>
  An \<^verbatim>\<open>AnalysisTarget\<close>. As in the read requests a number is an integer; the schema of
  the read tool refuses every other number.
\<close>

datatype priority = Critical | Important | Supplementary

record AnalysisTarget =
  target_file :: string
  target_mode :: "read_mode option"
  target_lines :: "int option"
  target_startLine :: "int option"
  target_endLine :: "int option"
  target_priority :: "priority option"

text \<open>The result of \<^verbatim>\<open>analyzeTargetedSections\<close>.\<close>

record TargetedAnalysis =
  analysis_content :: string
  fileAnalysisPerformed :: bool
  filesAnalyzed :: nat
  toolsUsed :: "string list"

text \<open>The name of a mode, and a possibly undefined number, in a template literal.\<close>

definition mode_name :: "read_mode \<Rightarrow> string" where
  "mode_name m =
     (case m of ModeFull \<Rightarrow> ''full'' | ModeHead \<Rightarrow> ''head'' | ModeTail \<Rightarrow> ''tail''
      | ModeRange \<Rightarrow> ''range'')"

definition optional_number_text :: "platform \<Rightarrow> int option \<Rightarrow> string" where
  "optional_number_text js v = (case v of None \<Rightarrow> ''undefined'' | Some n \<Rightarrow> number_text js n)"

text \<open>
  The read request that \<^verbatim>\<open>analyzeTargetedSections\<close> makes of a target: the path resolved
  against the working directory (when one is given and not empty) or the project root,
  and the mode \<^verbatim>\<open>range\<close> when the target names none.
\<close>

definition target_request ::
  "platform \<Rightarrow> string \<Rightarrow> string option \<Rightarrow> AnalysisTarget \<Rightarrow> ReadFileArgs" where
  "target_request js projectRoot workingDirectory target =
     \<lparr>arg_path =
        (if isAbsolute js (target_file target) then target_file target
         else (case workingDirectory of
                 Some dir \<Rightarrow> if dir \<noteq> [] then resolve js dir (target_file target)
                            else resolve js projectRoot (target_file target)
               | None \<Rightarrow> resolve js projectRoot (target_file target))),
      arg_mode = Some (case target_mode target of Some m \<Rightarrow> m | None \<Rightarrow> ModeRange),
      arg_lines = target_lines target,
      arg_startLine = target_startLine target,
      arg_endLine = target_endLine target\<rparr>"

text \<open>
  The elements that the inner \<^verbatim>\<open>for\<close> loop pushes for one target and its result: the
  header, the line on the mode when the target names a mode or a start line, and the
  content between code fences or, when the slot has no content or an empty one, the text
  of the failure.
\<close>

definition code_fence :: string where
  "code_fence = [CHR 0x60, CHR 0x60, CHR 0x60]"

definition target_section :: "platform \<Rightarrow> AnalysisTarget \<Rightarrow> FileSlot \<Rightarrow> string list" where
  "target_section js target result =
     [''### '' @ target_file target
        @ (if target_priority target = Some Critical then '' [CRITICAL]'' else [])]
     @ (if target_mode target \<noteq> None \<or> \<not> falsy (target_startLine target)
        then [''**''
              @ (case target_mode target of
                   Some m \<Rightarrow>
                     ''Mode: '' @ mode_name m
                     @ (if \<not> falsy (target_lines target)
                        then '' ('' @ number_text js (the (target_lines target)) @ '' lines)''
                        else [])
                 | None \<Rightarrow>
                     ''Lines '' @ optional_number_text js (target_startLine target) @ ''-''
                     @ optional_number_text js (target_endLine target))
              @ ''**'']
        else [])
     @ (case slot_content result of
          Some content \<Rightarrow>
            if content \<noteq> [] then [code_fence, content, code_fence @ [newline]]
            else [''Failed to read section: ''
                  @ (case slot_error result of Some e \<Rightarrow> e | None \<Rightarrow> ''undefined'')
                  @ [newline]]
        | None \<Rightarrow>
            [''Failed to read section: ''
             @ (case slot_error result of Some e \<Rightarrow> e | None \<Rightarrow> ''undefined'')
             @ [newline]])"

text \<open>
  One round of the outer \<^verbatim>\<open>for\<close> loop, over one priority group: the state is the array
  \<^verbatim>\<open>analysis\<close> and the files processed. An empty group is skipped. When the batch read
  reports success, the sections of the group are pushed in the order of its targets;
  the statement \<^verbatim>\<open>if (readResults.success)\<close> has no \<^verbatim>\<open>else\<close> branch.
\<close>

definition analyze_group ::
  "platform \<Rightarrow> ToolCallingConfig \<Rightarrow> file_system \<Rightarrow> string \<Rightarrow> string option
     \<Rightarrow> string list \<times> string list \<Rightarrow> AnalysisTarget list \<Rightarrow> string list \<times> string list" where
  "analyze_group js config fs projectRoot workingDirectory state targetGroup =
     (let (analysis, filesProcessed) = state in
      if targetGroup = [] then (analysis, filesProcessed)
      else
        (let fileRequests = map (target_request js projectRoot workingDirectory) targetGroup;
             readResults = fst (ToolCallingService_readMultipleFiles js config fs fileRequests)
         in if service_success readResults
            then (analysis
                    @ concat (map (\<lambda>(target, result). target_section js target result)
                                (zip targetGroup (service_results readResults))),
                  filesProcessed @ map target_file targetGroup)
            else (analysis, filesProcessed)))"

text \<open>
  \<^verbatim>\<open>analyzeTargetedSections(targets, projectRoot, workingDirectory)\<close>, for a validator that
  has a tool-calling service with the given configuration.
\<close>

definition analyzeTargetedSections ::
  "platform \<Rightarrow> ToolCallingConfig \<Rightarrow> file_system \<Rightarrow> AnalysisTarget list \<Rightarrow> string
     \<Rightarrow> string option \<Rightarrow> TargetedAnalysis" where
  "analyzeTargetedSections js config fs targets projectRoot workingDirectory =
     (let criticalTargets = filter (\<lambda>t. target_priority t = Some Critical) targets;
          importantTargets =
            filter (\<lambda>t. target_priority t = Some Important \<or> target_priority t = None) targets;
          supplementaryTargets = filter (\<lambda>t. target_priority t = Some Supplementary) targets;
          (analysis, filesProcessed) =
            foldl (analyze_group js config fs projectRoot workingDirectory)
              ([''## Targeted Code Analysis'',
                ''*(Client-specified code sections with mode support)*'' @ [newline]], [])
              [criticalTargets, importantTargets, supplementaryTargets]
      in \<lparr>analysis_content = join_lines analysis,
          fileAnalysisPerformed = True,
          filesAnalyzed = length (remdups filesProcessed),
          toolsUsed = [''readMultipleFiles'']\<rparr>)"

section \<open>Examples\<close>

text \<open>
  A platform, a file system, a configuration and requests for the examples. The texts are
  ASCII, the numbers are integers (written in decimal), the paths are simple and absolute,
  and the messages stand for those of the libraries.
\<close>

function decimal :: "nat \<Rightarrow> string" where
  "decimal n =
     (if n < 10 then [char_of (48 + n)] else decimal (n div 10) @ [char_of (48 + n mod 10)])"
  by pat_completeness auto
termination
  by (relation "measure (\<lambda>n. n)") auto

declare decimal.simps [simp del]

definition example_platform :: platform where
  "example_platform =
     \<lparr>zod_message = (\<lambda>args. ''Invalid parameter combination.''),
      toString_utf8 = (\<lambda>bytes. bytes),
      byteLength_utf8 = length,
      toLowerCase = map toLowerCase_char,
      number_text = (\<lambda>n. if n < 0 then CHR ''-'' # decimal (nat (- n)) else decimal (nat n)),
      isAbsolute = (\<lambda>p. take 1 p = ''/''),
      resolve = (\<lambda>dir p. dir @ ''/'' @ p),
      file_size_message = (\<lambda>bytes limit. ''File size exceeds maximum allowed size'')\<rparr>"

definition example_files :: file_system where
  "example_files path =
     (if path = ''/p/a.txt'' then Inr example_text
      else if path = ''/p/b.txt'' then Inr (''alpha'' @ newline # ''beta'' @ [newline])
      else if path = ''/p/c.txt'' then Inr ''gamma''
      else Inl (''ENOENT: no such file or directory, open '' @ quoted path))"

definition example_config :: ToolCallingConfig where
  "example_config =
     \<lparr>readFile_enabled = True, maxFileSizeKB = 1024, allowedFileExtensions = [''.txt'', ''.md'']\<rparr>"

definition example_request :: "string \<Rightarrow> ReadFileArgs" where
  "example_request path =
     \<lparr>arg_path = path, arg_mode = None, arg_lines = None, arg_startLine = None,
      arg_endLine = None\<rparr>"


definition example_target :: "string \<Rightarrow> priority option \<Rightarrow> AnalysisTarget" where
  "example_target name p =
     \<lparr>target_file = name, target_mode = Some ModeFull, target_lines = None,
      target_startLine = None, target_endLine = None, target_priority = p\<rparr>"

section \<open>Theorems\<close>

subsection \<open>Environment source chain\<close>

lemma property_own: "obj k = Some v \<Longrightarrow> property obj k = Some (Text v)"
  by (simp add: property_def)

lemma property_unset:
  "obj k = None \<Longrightarrow> k \<notin> set Object_prototype_members \<Longrightarrow> property obj k = None"
  by (simp add: property_def)

lemma source_chain_get:
  "get (source_chain m d p) k =
     nullish (nullish (property m k) (property d k)) (property p k)"
  by (simp add: source_chain_def TripleMergedEnvProvider_def DotenvProvider_def
      ProcessEnvProvider_def)

lemma source_chain_getAll:
  "getAll (source_chain m d p) k =
     (case m k of Some v \<Rightarrow> Some v | None \<Rightarrow>
       (case d k of Some v \<Rightarrow> Some v | None \<Rightarrow> (p(''__proto__'' := None)) k))"
  by (simp add: source_chain_def TripleMergedEnvProvider_def DotenvProvider_def
      ProcessEnvProvider_def map_add_def split: option.splits)

text \<open>
  For a key that is not the name of a member of \<^verbatim>\<open>Object.prototype\<close> the chain keeps the
  documented order: the caller's value wins over the file's and the process's, the file's
  over the process's, and \<^verbatim>\<open>getAll()\<close> holds for the key the string that \<^verbatim>\<open>get(key)\<close>
  returns.
\<close>

lemma source_precedence_ordinary_key:
  assumes "k \<notin> set Object_prototype_members"
  shows "m k = Some a \<longrightarrow> get (source_chain m d p) k = Some (Text a)"
    and "m k = None \<and> d k = Some b \<longrightarrow> get (source_chain m d p) k = Some (Text b)"
    and "m k = None \<and> d k = None \<and> p k = Some c \<longrightarrow> get (source_chain m d p) k = Some (Text c)"
    and "get (source_chain m d p) k = map_option Text (getAll (source_chain m d p) k)"
proof -
  from assms have proto: "k \<noteq> ''__proto__''"
    by (auto simp: Object_prototype_members_def)
  show "m k = Some a \<longrightarrow> get (source_chain m d p) k = Some (Text a)"
    by (simp add: source_chain_get property_def nullish_def)
  show "m k = None \<and> d k = Some b \<longrightarrow> get (source_chain m d p) k = Some (Text b)"
    using assms by (simp add: source_chain_get property_def nullish_def)
  show "m k = None \<and> d k = None \<and> p k = Some c \<longrightarrow> get (source_chain m d p) k = Some (Text c)"
    using assms by (simp add: source_chain_get property_def nullish_def)
  show "get (source_chain m d p) k = map_option Text (getAll (source_chain m d p) k)"
    using assms proto
    by (simp add: source_chain_get source_chain_getAll property_def nullish_def
        split: option.splits)
qed

text \<open>
  Claim C1. In the chain of caller-supplied, file-based and process variables, a key set
  only in the file and the process is to resolve to the file's value, and the merged view
  \<^verbatim>\<open>getAll()\<close> is to hold for every key set in some source the value that \<^verbatim>\<open>get(key)\<close>
  returns. For the key \<^verbatim>\<open>constructor\<close>, set to \<^verbatim>\<open>file\<close> in the file and to \<^verbatim>\<open>sys\<close> in the process
  environment and not set by the caller, \<^verbatim>\<open>get\<close> returns neither: the caller's tier answers
  with the member its object inherits from \<^verbatim>\<open>Object.prototype\<close>, which is not nullish and so
  ends the chain, while \<^verbatim>\<open>getAll()\<close> holds the file's value for the key. The same happens
  to the key \<^verbatim>\<open>toString\<close> set in the file alone. A key set in all three sources does
  resolve to the caller's value.
\<close>

theorem C1_inherited_member_shadows_file_value:
  "get (source_chain Map.empty [''constructor'' \<mapsto> ''file''] [''constructor'' \<mapsto> ''sys''])
       ''constructor'' = Some (Inherited ''constructor'')
   \<and> getAll (source_chain Map.empty [''constructor'' \<mapsto> ''file''] [''constructor'' \<mapsto> ''sys''])
       ''constructor'' = Some ''file''
   \<and> get (source_chain Map.empty [''toString'' \<mapsto> ''file''] Map.empty) ''toString''
       = Some (Inherited ''toString'')
   \<and> getAll (source_chain Map.empty [''toString'' \<mapsto> ''file''] Map.empty) ''toString''
       = Some ''file''
   \<and> get (source_chain [''constructor'' \<mapsto> ''mcp''] [''constructor'' \<mapsto> ''file'']
        [''constructor'' \<mapsto> ''sys'']) ''constructor'' = Some (Text ''mcp'')"
  by (simp add: source_chain_get source_chain_getAll property_def nullish_def
      Object_prototype_members_def)


subsection \<open>Cache expiry\<close>

lemma get_after_set:
  "EnvironmentCache_get key ttl_arg now (EnvironmentCache_set key v (Some T) t0 c) =
     (if exceeds (now - t0) (case ttl_arg of Some t \<Rightarrow> t | None \<Rightarrow> T)
      then (None, c\<lparr>cache := (cache c)(key := None)\<rparr>)
      else (v, EnvironmentCache_set key v (Some T) t0 c))"
  by (cases ttl_arg) (simp_all add: EnvironmentCache_get_def EnvironmentCache_set_def Let_def)

text \<open>
  Claim C5 as stated fails: a read may pass a time-to-live of its own, which replaces the
  stored one. A value stored at time 0 for 100 ms and read at time 1 with the override
  0 is absent, although only 1 ms has elapsed.
\<close>

theorem C5_override_counterexample:
  "(1::int) - 0 < 100
   \<and> fst (EnvironmentCache_get ''k'' (Some (Finite 0)) 1
        (EnvironmentCache_set ''k'' (Some ''v'') (Some (Finite 100)) 0
           (new_EnvironmentCache (Some (Finite 30000))))) = None"
  by (simp add: get_after_set exceeds_def)

text \<open>
  Claim C5, amended. A value stored under a key with time-to-live \<open>T\<close> at time \<open>t0\<close>
  and read at time \<open>now\<close> by a \<^verbatim>\<open>get\<close> that passes no time-to-live of its own is
  returned unchanged, the cache staying as it is, when \<open>now - t0 \<le> T\<close> (the boundary
  included), and is absent, the entry being deleted, when \<open>now - t0 > T\<close>. A value stored
  with \<^verbatim>\<open>Infinity\<close> is always returned. A read that passes its own time-to-live is
  decided by that one instead of \<open>T\<close>.
\<close>

theorem C5_ttl_expiry:
  fixes c :: "'v EnvironmentCache"
  defines "stored T v key t0 \<equiv> EnvironmentCache_set key v (Some T) t0 c"
  shows "(now - t0 \<le> n \<longrightarrow>
            EnvironmentCache_get key None now (stored (Finite n) v key t0)
              = (v, stored (Finite n) v key t0))
       \<and> (now - t0 > n \<longrightarrow>
            fst (EnvironmentCache_get key None now (stored (Finite n) v key t0)) = None
            \<and> cache (snd (EnvironmentCache_get key None now (stored (Finite n) v key t0))) key = None)
       \<and> EnvironmentCache_get key None now (stored Infinity v key t0) = (v, stored Infinity v key t0)
       \<and> fst (EnvironmentCache_get key (Some T') now (stored T v key t0))
            = (if exceeds (now - t0) T' then None else v)"
  unfolding stored_def by (simp add: get_after_set exceeds_def)

theorem C5_ttl_expiry_witness:
  "EnvironmentCache_get ''k'' None 100
       (EnvironmentCache_set ''k'' (Some ''v'') (Some (Finite 100)) 0 (new_EnvironmentCache None))
     = (Some ''v'', EnvironmentCache_set ''k'' (Some ''v'') (Some (Finite 100)) 0 (new_EnvironmentCache None))
   \<and> fst (EnvironmentCache_get ''k'' None 101
       (EnvironmentCache_set ''k'' (Some ''v'') (Some (Finite 100)) 0 (new_EnvironmentCache None)))
     = None"
  using C5_ttl_expiry [of 100 0 100 "''k''" "Some ''v''" "new_EnvironmentCache None"]
    C5_ttl_expiry [of 101 0 100 "''k''" "Some ''v''" "new_EnvironmentCache None"]
  by simp

subsection \<open>Single-flight computation\<close>


lemma getOrCompute_in_flight:
  "cache (envCache s) key = None \<Longrightarrow> inFlight (envCache s) key = Some p \<Longrightarrow>
     getOrCompute key r ttl_arg now s = (Awaits p, s)"
  by (simp add: getOrCompute_def EnvironmentCache_get_def)

lemma fire_in_flight:
  "cache (envCache s) key = None \<Longrightarrow> inFlight (envCache s) key = Some p \<Longrightarrow>
     fire key calls s = (replicate (length calls) (Awaits p), s)"
  by (induction calls) (auto simp: getOrCompute_in_flight)

lemma getOrCompute_start:
  "cache (envCache s) key = None \<Longrightarrow> inFlight (envCache s) key = None \<Longrightarrow>
     getOrCompute key (Returns outcome) ttl_arg now s =
       (Awaits (next_promise s),
        s\<lparr>envCache := (envCache s)\<lparr>inFlight := (inFlight (envCache s))(key \<mapsto> next_promise s)\<rparr>,
          pending := (pending s)(next_promise s \<mapsto> (key, ttl_arg, outcome)),
          next_promise := next_promise s + 1,
          resolver_calls := resolver_calls s @ [key]\<rparr>)"
  by (simp add: getOrCompute_def EnvironmentCache_get_def Let_def)

lemma getOrCompute_throws:
  "cache (envCache s) key = None \<Longrightarrow> inFlight (envCache s) key = None \<Longrightarrow>
     getOrCompute key (Throws e) ttl_arg now s =
       (Threw e, s\<lparr>resolver_calls := resolver_calls s @ [key]\<rparr>)"
  by (simp add: getOrCompute_def EnvironmentCache_get_def Let_def)

lemma fire_start:
  assumes "cache (envCache s) key = None" "inFlight (envCache s) key = None"
  shows "fire key ((Returns outcome, ttl_arg, now) # rest) s =
       (replicate (Suc (length rest)) (Awaits (next_promise s)),
        s\<lparr>envCache := (envCache s)\<lparr>inFlight := (inFlight (envCache s))(key \<mapsto> next_promise s)\<rparr>,
          pending := (pending s)(next_promise s \<mapsto> (key, ttl_arg, outcome)),
          next_promise := next_promise s + 1,
          resolver_calls := resolver_calls s @ [key]\<rparr>)"
  using assms by (simp add: getOrCompute_start fire_in_flight)

lemma getOrCompute_miss:
  "fst (EnvironmentCache_get key ttl_arg now (envCache s)) = None \<Longrightarrow>
   inFlight (envCache s) key = None \<Longrightarrow>
     resolver_calls (snd (getOrCompute key (Returns outcome) ttl_arg now s)) = resolver_calls s @ [key]"
  by (auto simp: getOrCompute_def EnvironmentCache_get_def Let_def split: option.splits prod.splits if_splits)

text \<open>
  Let a key be uncached and have no computation in flight. When \<open>N \<ge> 1\<close>
  calls of \<^verbatim>\<open>getOrCompute\<close> for the key are fired before anything settles, and the
  first caller's resolver returns (a value or a promise), the resolver is executed exactly
  once, every caller awaits the same promise, and once that promise settles every caller
  has received the same outcome. The in-flight entry is gone after the success callback
  (which has stored the value) and after the failure callback; after a failure a later
  call runs the resolver again.
\<close>

lemma single_flight_returning:
  fixes s :: "('v, 'e) event_loop"
    and outcome :: "'e + 'v option" and ttl_arg :: "duration option" and now later :: int
    and rest :: "(('v, 'e) resolver \<times> duration option \<times> int) list"
  assumes uncached: "cache (envCache s) key = None"
    and idle: "inFlight (envCache s) key = None"
  defines "calls \<equiv> (Returns outcome, ttl_arg, now) # rest"
  defines "p \<equiv> next_promise s"
  defines "hs \<equiv> fst (fire key calls s)"
  defines "s1 \<equiv> snd (fire key calls s)"
  defines "s2 \<equiv> settle p later s1"
  shows "resolver_calls s1 = resolver_calls s @ [key]
       \<and> hs = replicate (length calls) (Awaits p)
       \<and> inFlight (envCache s1) key = Some p
       \<and> (\<forall>h \<in> set hs. received s2 h = Some outcome)
       \<and> inFlight (envCache s2) key = None
       \<and> (\<forall>v. outcome = Inr v \<longrightarrow>
             cache (envCache s2) key =
               Some \<lparr>entry_value = v, timestamp = later,
                     ttl = (case ttl_arg of Some t \<Rightarrow> t
                            | None \<Rightarrow> (case defaultTTL (envCache s) of
                                        Some d \<Rightarrow> d | None \<Rightarrow> Infinity))\<rparr>)
       \<and> (\<forall>e. outcome = Inl e \<longrightarrow>
             resolver_calls (snd (getOrCompute key (Returns again) ttl2 now2 s2))
               = resolver_calls s @ [key, key])"
proof -
  have f: "fire key calls s =
       (replicate (length calls) (Awaits p),
        s\<lparr>envCache := (envCache s)\<lparr>inFlight := (inFlight (envCache s))(key \<mapsto> p)\<rparr>,
          pending := (pending s)(p \<mapsto> (key, ttl_arg, outcome)),
          next_promise := p + 1,
          resolver_calls := resolver_calls s @ [key]\<rparr>)"
    unfolding calls_def p_def using fire_start [OF uncached idle] by simp
  have s1: "s1 = s\<lparr>envCache := (envCache s)\<lparr>inFlight := (inFlight (envCache s))(key \<mapsto> p)\<rparr>,
          pending := (pending s)(p \<mapsto> (key, ttl_arg, outcome)),
          next_promise := p + 1,
          resolver_calls := resolver_calls s @ [key]\<rparr>"
    by (simp add: s1_def f)
  have hs: "hs = replicate (length calls) (Awaits p)"
    by (simp add: hs_def f)
  have settled2: "settled s2 p = Some outcome"
    by (simp add: s2_def s1 settle_def Let_def)
  have idle2: "inFlight (envCache s2) key = None"
    by (cases outcome) (simp_all add: s2_def s1 settle_def Let_def EnvironmentCache_set_def)
  have calls2: "resolver_calls s2 = resolver_calls s @ [key]"
    by (simp add: s2_def s1 settle_def Let_def)
  have ok: "cache (envCache s2) key =
               Some \<lparr>entry_value = v, timestamp = later,
                     ttl = (case ttl_arg of Some t \<Rightarrow> t
                            | None \<Rightarrow> (case defaultTTL (envCache s) of
                                        Some d \<Rightarrow> d | None \<Rightarrow> Infinity))\<rparr>"
    if "outcome = Inr v" for v
    using that by (cases ttl_arg) (simp_all add: s2_def s1 settle_def Let_def EnvironmentCache_set_def)
  have retry: "resolver_calls (snd (getOrCompute key (Returns again) ttl2 now2 s2))
               = resolver_calls s @ [key, key]" if "outcome = Inl e" for e
  proof -
    have "cache (envCache s2) key = None"
      using that uncached by (simp add: s2_def s1 settle_def Let_def)
    then have "fst (EnvironmentCache_get key ttl2 now2 (envCache s2)) = None"
      by (simp add: EnvironmentCache_get_def)
    from getOrCompute_miss [OF this idle2] calls2 show ?thesis by simp
  qed
  show ?thesis
    using s1 hs settled2 idle2 ok retry
    by (simp add: received_def)
qed

lemma single_flight_returning_example:
  "cache (envCache (new_event_loop (Some (Finite 30000)) :: (string, string) event_loop)) ''k'' = None
   \<and> inFlight (envCache (new_event_loop (Some (Finite 30000)) :: (string, string) event_loop)) ''k'' = None
   \<and> fst (fire ''k'' [(Returns (Inr (Some ''v'')), None, 0), (Returns (Inr (Some ''w'')), None, 1),
          (Throws ''boom'', None, 2)]
         (new_event_loop (Some (Finite 30000)) :: (string, string) event_loop))
       = [Awaits 0, Awaits 0, Awaits 0]
   \<and> resolver_calls (snd (fire ''k'' [(Returns (Inr (Some ''v'')), None, 0),
          (Returns (Inr (Some ''w'')), None, 1), (Throws ''boom'', None, 2)]
         (new_event_loop (Some (Finite 30000)) :: (string, string) event_loop))) = [''k'']
   \<and> inFlight (envCache (settle 0 5 (snd (fire ''k'' [(Returns (Inr (Some ''v'')), None, 0),
          (Returns (Inr (Some ''w'')), None, 1), (Throws ''boom'', None, 2)]
         (new_event_loop (Some (Finite 30000)) :: (string, string) event_loop))))) ''k'' = None"
proof -
  let ?s = "new_event_loop (Some (Finite 30000)) :: (string, string) event_loop"
  have u: "cache (envCache ?s) ''k'' = None" and i: "inFlight (envCache ?s) ''k'' = None"
    by (simp_all add: new_event_loop_def new_EnvironmentCache_def)
  have n: "next_promise ?s = 0"
    by (simp add: new_event_loop_def)
  show ?thesis
    using u i n single_flight_returning [OF u i, where outcome = "Inr (Some ''v'')" and ttl_arg = None
        and now = 0 and later = 5
        and rest = "[(Returns (Inr (Some ''w'')), None, 1), (Throws ''boom'', None, 2)]"]
    by (simp add: new_event_loop_def)
qed

text \<open>
  A resolver that throws synchronously throws inside \<^verbatim>\<open>Promise.resolve(resolver())\<close>, before
  \<^verbatim>\<open>this.inFlight.set(key, promise)\<close> is reached: the call registers nothing, and the next
  call for the key, finding neither a value nor an in-flight promise, runs its resolver
  too. So \<open>N\<close> calls whose resolvers throw synchronously run the resolver \<open>N\<close> times.
\<close>

lemma fire_throws:
  assumes "cache (envCache s) key = None" "inFlight (envCache s) key = None"
  shows "fire key (map (\<lambda>(e, ttl_arg, now). (Throws e, ttl_arg, now)) calls) s =
       (map (\<lambda>(e, ttl_arg, now). Threw e) calls,
        s\<lparr>resolver_calls := resolver_calls s @ replicate (length calls) key\<rparr>)"
  using assms
proof (induction calls arbitrary: s)
  case Nil
  then show ?case by simp
next
  case (Cons c calls)
  obtain e ttl_arg now where c: "c = (e, ttl_arg, now)"
    by (cases c)
  let ?s1 = "s\<lparr>resolver_calls := resolver_calls s @ [key]\<rparr>"
  have step: "getOrCompute key (Throws e) ttl_arg now s = (Threw e, ?s1)"
    by (rule getOrCompute_throws [OF Cons.prems])
  have "cache (envCache ?s1) key = None" "inFlight (envCache ?s1) key = None"
    using Cons.prems by simp_all
  from Cons.IH [OF this] show ?case
    by (simp add: c step replicate_app_Cons_same)
qed

text \<open>
  Claim C2. \<open>N\<close> concurrent calls of \<^verbatim>\<open>getOrCompute\<close> for one uncached key are to execute the
  resolver exactly once. Three calls on a fresh cache, each with a resolver that throws
  synchronously, execute the resolver three times: no call leaves an in-flight entry, each
  caller gets the rejection of its own resolver's error, and the log of resolver
  invocations holds the key three times.
\<close>

theorem C2_synchronous_throw_runs_each_resolver:
  "cache (envCache (new_event_loop (Some (Finite 30000)) :: (string, string) event_loop)) ''k'' = None
   \<and> inFlight (envCache (new_event_loop (Some (Finite 30000)) :: (string, string) event_loop)) ''k''
       = None
   \<and> fire ''k'' [(Throws ''boom'', None, 0), (Throws ''boom'', None, 0), (Throws ''boom'', None, 0)]
        (new_event_loop (Some (Finite 30000)) :: (string, string) event_loop)
      = ([Threw ''boom'', Threw ''boom'', Threw ''boom''],
         (new_event_loop (Some (Finite 30000)))\<lparr>resolver_calls := [''k'', ''k'', ''k'']\<rparr>)"
  by (simp add: new_event_loop_def new_EnvironmentCache_def getOrCompute_def
      EnvironmentCache_get_def Let_def)

subsection \<open>API-key validation\<close>

lemma seq_after_step:
  "x \<in> set (rx_after ci r s) \<Longrightarrow> y \<in> set (seq_after ci rs x) \<Longrightarrow> y \<in> set (seq_after ci (r # rs) s)"
  by auto

lemma rx_after_Lit:
  assumes "map toLowerCase_char l' = l" "map toLowerCase_char l = l"
  shows "rest \<in> set (rx_after True (Lit l) (l' @ rest))"
proof -
  from assms(1) have "length l' = length l"
    by (metis length_map)
  with assms show ?thesis by simp
qed

lemma rx_after_OneOf:
  "c \<in> set cs \<Longrightarrow> rest \<in> set (rx_after ci (OneOf cs) (c # rest))"
  by simp

lemma rx_after_DotStar:
  assumes "\<forall>c \<in> set mid. \<not> line_terminator c"
  shows "rest \<in> set (rx_after ci DotStar (mid @ rest))"
proof -
  have "takeWhile (\<lambda>c. \<not> line_terminator c) (mid @ rest)
          = mid @ takeWhile (\<lambda>c. \<not> line_terminator c) rest"
    using assms by (simp add: takeWhile_append2)
  then have "length mid < Suc (length (takeWhile (\<lambda>c. \<not> line_terminator c) (mid @ rest)))"
    by simp
  moreover have "drop (length mid) (mid @ rest) = rest"
    by simp
  ultimately show ?thesis
    unfolding rx_after.simps set_map set_upt
    by (metis (no_types, lifting) atLeastLessThan_iff image_eqI le0)
qed

lemma rejected_if_pattern:
  "\<not> test_mode env \<Longrightarrow> p \<in> set placeholderPatterns \<Longrightarrow> regex_test p apiKey \<Longrightarrow>
     \<not> validateApiKey env providerName apiKey"
  by (auto simp: validateApiKey_def)

lemma starts_prefix:
  assumes "startsWith (map toLowerCase_char s) l"
  shows "\<exists>l' rest. s = l' @ rest \<and> map toLowerCase_char l' = l"
proof -
  from assms have "map toLowerCase_char (take (length l) s) = l"
    by (simp add: startsWith_def take_map)
  moreover have "s = take (length l) s @ drop (length l) s"
    by simp
  ultimately show ?thesis by blast
qed

lemma lower_literals:
  "map toLowerCase_char ''your'' = ''your''" "map toLowerCase_char ''key'' = ''key''"
  "map toLowerCase_char ''here'' = ''here''" "map toLowerCase_char ''dummy'' = ''dummy''"
  "map toLowerCase_char ''placeholder'' = ''placeholder''"
  by (simp_all add: toLowerCase_char_def)

lemma dummy_rejected:
  assumes "\<not> test_mode env" "startsWith (map toLowerCase_char apiKey) ''dummy''"
  shows "\<not> validateApiKey env providerName apiKey"
proof -
  from starts_prefix [OF assms(2)] obtain l' rest
    where k: "apiKey = l' @ rest" and l: "map toLowerCase_char l' = ''dummy''" by (elim exE conjE)
  have "map toLowerCase_char ''dummy'' = ''dummy''"
    by (simp add: toLowerCase_char_def)
  from rx_after_Lit [OF l this]
  have "rest \<in> set (rx_after True (Lit ''dummy'') apiKey)"
    unfolding k .
  then have "rest \<in> set (seq_after True [Lit ''dummy''] apiKey)"
    by (rule seq_after_step) simp
  then have "regex_test \<lparr>items = [Lit ''dummy''], end_anchor = False, ignoreCase = True\<rparr> apiKey"
    unfolding regex_test_def by (auto simp del: seq_after.simps rx_after.simps)
  then show ?thesis
    by (rule rejected_if_pattern [OF assms(1), rotated]) (simp add: placeholderPatterns_def)
qed

lemma placeholder_rejected:
  assumes "\<not> test_mode env" "startsWith (map toLowerCase_char apiKey) ''placeholder''"
  shows "\<not> validateApiKey env providerName apiKey"
proof -
  from starts_prefix [OF assms(2)] obtain l' rest
    where k: "apiKey = l' @ rest" and l: "map toLowerCase_char l' = ''placeholder''" by (elim exE conjE)
  have "map toLowerCase_char ''placeholder'' = ''placeholder''"
    by (simp add: toLowerCase_char_def)
  from rx_after_Lit [OF l this]
  have "rest \<in> set (rx_after True (Lit ''placeholder'') apiKey)"
    unfolding k .
  then have "rest \<in> set (seq_after True [Lit ''placeholder''] apiKey)"
    by (rule seq_after_step) simp
  then have "regex_test \<lparr>items = [Lit ''placeholder''], end_anchor = False, ignoreCase = True\<rparr> apiKey"
    unfolding regex_test_def by (auto simp del: seq_after.simps rx_after.simps)
  then show ?thesis
    by (rule rejected_if_pattern [OF assms(1), rotated]) (simp add: placeholderPatterns_def)
qed

lemma templated_rejected:
  assumes "\<not> test_mode env"
    and shape: "apiKey = y @ c1 # mid @ c2 # k @ c3 # h"
    and lits: "map toLowerCase_char y = ''your''" "map toLowerCase_char k = ''key''"
      "map toLowerCase_char h = ''here''"
    and seps: "c1 \<in> set ''-_''" "c2 \<in> set ''-_''" "c3 \<in> set ''-_''"
    and mid: "\<forall>c \<in> set mid. \<not> line_terminator c"
  shows "\<not> validateApiKey env providerName apiKey"
proof -
  have "[] \<in> set (seq_after True [Lit ''here''] (h @ []))"
    by (rule seq_after_step [OF rx_after_Lit [OF lits(3)]]) (simp_all add: toLowerCase_char_def)
  then have 7: "[] \<in> set (seq_after True [Lit ''here''] h)"
    unfolding append_Nil2 .
  have 6: "[] \<in> set (seq_after True [OneOf ''-_'', Lit ''here''] (c3 # h))"
    by (rule seq_after_step [OF rx_after_OneOf [OF seps(3)] 7])
  have 5: "[] \<in> set (seq_after True [Lit ''key'', OneOf ''-_'', Lit ''here''] (k @ c3 # h))"
    by (rule seq_after_step [OF rx_after_Lit [OF lits(2)] 6]) (simp add: toLowerCase_char_def)
  have 4: "[] \<in> set (seq_after True [OneOf ''-_'', Lit ''key'', OneOf ''-_'', Lit ''here'']
                 (c2 # k @ c3 # h))"
    by (rule seq_after_step [OF rx_after_OneOf [OF seps(2)] 5])
  have 3: "[] \<in> set (seq_after True [DotStar, OneOf ''-_'', Lit ''key'', OneOf ''-_'', Lit ''here'']
                 (mid @ c2 # k @ c3 # h))"
    by (rule seq_after_step [OF rx_after_DotStar [OF mid] 4])
  have 2: "[] \<in> set (seq_after True
                 [OneOf ''-_'', DotStar, OneOf ''-_'', Lit ''key'', OneOf ''-_'', Lit ''here'']
                 (c1 # mid @ c2 # k @ c3 # h))"
    by (rule seq_after_step [OF rx_after_OneOf [OF seps(1)] 3])
  have 1: "[] \<in> set (seq_after True
                 [Lit ''your'', OneOf ''-_'', DotStar, OneOf ''-_'', Lit ''key'', OneOf ''-_'',
                  Lit ''here''] apiKey)"
    unfolding shape
    by (rule seq_after_step [OF rx_after_Lit [OF lits(1)] 2]) (simp add: toLowerCase_char_def)
  then have "regex_test \<lparr>items = [Lit ''your'', OneOf ''-_'', DotStar, OneOf ''-_'', Lit ''key'',
                 OneOf ''-_'', Lit ''here''], end_anchor = True, ignoreCase = True\<rparr> apiKey"
    unfolding regex_test_def by (auto simp del: seq_after.simps rx_after.simps)
  then show ?thesis
    by (rule rejected_if_pattern [OF assms(1), rotated]) (simp add: placeholderPatterns_def)
qed

lemma test_mode_validate:
  "test_mode env \<Longrightarrow>
     validateApiKey env providerName apiKey =
       (trim apiKey \<noteq> [] \<and> \<not> js_includes apiKey ''your_'' \<and> \<not> js_includes apiKey ''_here''
        \<and> \<not> js_includes apiKey ''placeholder'')"
  by (auto simp: validateApiKey_def trim_def)

lemma example_placeholder: "\<not> validateApiKey env providerName ''your_openai_api_key_here''"
  by (simp add: validateApiKey_def placeholderPatterns_def regex_test_def trim_def
      js_whitespace_def toLowerCase_char_def line_terminator_def startsWith_def)

lemma example_real: "validateApiKey env providerName ''sk-abc123realkey''"
  by (simp add: validateApiKey_def placeholderPatterns_def regex_test_def trim_def
      js_whitespace_def toLowerCase_char_def line_terminator_def startsWith_def)

text \<open>
  Claim C6 as stated fails outside test mode: the patterns are anchored at the start of
  the key, so a key that contains \<^verbatim>\<open>your_\<close> and \<^verbatim>\<open>_here\<close> further inside is accepted.
\<close>

theorem C6_substring_counterexample:
  "js_includes ''sk-your_key_here'' ''your_'' \<and> js_includes ''sk-your_key_here'' ''_here''
   \<and> \<not> test_mode Map.empty
   \<and> validateApiKey Map.empty ''openai'' ''sk-your_key_here''"
  by (simp add: validateApiKey_def placeholderPatterns_def regex_test_def trim_def test_mode_def
      js_whitespace_def toLowerCase_char_def line_terminator_def startsWith_def)

text \<open>
  Claim C6, amended. Outside test mode, API-key validation rejects the blank keys and the
  keys that one of the anchored placeholder patterns matches; among them every key that
  starts with \<^verbatim>\<open>dummy\<close> or with \<^verbatim>\<open>placeholder\<close> in any letter case, and every key of the
  templated shape \<^verbatim>\<open>your-x-key-here\<close> (separators \<^verbatim>\<open>-\<close> or \<^verbatim>\<open>_\<close>, any letter case, no
  line break inside). In test mode exactly the blank keys and the keys that contain
  \<^verbatim>\<open>your_\<close>, \<^verbatim>\<open>_here\<close> or \<^verbatim>\<open>placeholder\<close> are rejected. In both modes the key
  \<^verbatim>\<open>your_openai_api_key_here\<close> is rejected and \<^verbatim>\<open>sk-abc123realkey\<close> is accepted.
\<close>

theorem C6_placeholder_rejection:
  "(\<not> test_mode env \<longrightarrow>
      (startsWith (map toLowerCase_char apiKey) ''dummy'' \<longrightarrow>
         \<not> validateApiKey env providerName apiKey)
    \<and> (startsWith (map toLowerCase_char apiKey) ''placeholder'' \<longrightarrow>
         \<not> validateApiKey env providerName apiKey)
    \<and> (apiKey = y @ c1 # mid @ c2 # k @ c3 # h
         \<and> map toLowerCase_char y = ''your'' \<and> map toLowerCase_char k = ''key''
         \<and> map toLowerCase_char h = ''here''
         \<and> c1 \<in> set ''-_'' \<and> c2 \<in> set ''-_'' \<and> c3 \<in> set ''-_''
         \<and> (\<forall>c \<in> set mid. \<not> line_terminator c) \<longrightarrow>
         \<not> validateApiKey env providerName apiKey)
    \<and> validateApiKey env providerName apiKey =
         (trim apiKey \<noteq> [] \<and> \<not> (\<exists>pattern \<in> set placeholderPatterns. regex_test pattern apiKey)))
   \<and> (test_mode env \<longrightarrow>
        validateApiKey env providerName apiKey =
          (trim apiKey \<noteq> [] \<and> \<not> js_includes apiKey ''your_'' \<and> \<not> js_includes apiKey ''_here''
           \<and> \<not> js_includes apiKey ''placeholder''))
   \<and> \<not> validateApiKey env providerName ''your_openai_api_key_here''
   \<and> validateApiKey env providerName ''sk-abc123realkey''"
proof -
  have strict: "validateApiKey env providerName apiKey =
         (trim apiKey \<noteq> [] \<and> \<not> (\<exists>pattern \<in> set placeholderPatterns. regex_test pattern apiKey))"
    if "\<not> test_mode env"
    using that by (auto simp: validateApiKey_def trim_def)
  show ?thesis
    using dummy_rejected [of env apiKey providerName]
      placeholder_rejected [of env apiKey providerName]
      templated_rejected [of env apiKey y c1 mid c2 k c3 h providerName]
      strict test_mode_validate [of env providerName apiKey]
      example_placeholder [of env providerName] example_real [of env providerName]
    by (simp del: set_simps)
qed

theorem C6_placeholder_rejection_witness:
  "\<not> test_mode Map.empty
   \<and> \<not> validateApiKey Map.empty ''openai'' ''Dummy-key-1''
   \<and> \<not> validateApiKey Map.empty ''openai'' ''PlaceHolder42''
   \<and> \<not> validateApiKey Map.empty ''openai'' ''YOUR-openai-KEY_here''
   \<and> test_mode [''TEST_MODE'' \<mapsto> ''true'']
   \<and> \<not> validateApiKey [''TEST_MODE'' \<mapsto> ''true''] ''openai'' ''sk-x_placeholder''
   \<and> validateApiKey [''TEST_MODE'' \<mapsto> ''true''] ''openai'' ''dummy''"
proof -
  have nt: "\<not> test_mode Map.empty"
    by (simp add: test_mode_def)
  have tm: "test_mode [''TEST_MODE'' \<mapsto> ''true'']"
    by (simp add: test_mode_def)
  note strict = C6_placeholder_rejection [THEN conjunct1, THEN mp, OF nt]
  note relaxed = C6_placeholder_rejection [THEN conjunct2, THEN conjunct1, THEN mp, OF tm]
  have d: "\<not> validateApiKey Map.empty ''openai'' ''Dummy-key-1''"
    by (rule strict [THEN conjunct1, THEN mp]) code_simp
  have p: "\<not> validateApiKey Map.empty ''openai'' ''PlaceHolder42''"
    by (rule strict [THEN conjunct2, THEN conjunct1, THEN mp]) code_simp
  have t: "\<not> validateApiKey Map.empty ''openai'' ''YOUR-openai-KEY_here''"
    by (rule C6_placeholder_rejection [where env = Map.empty
            and y = "''YOUR''" and ?c1.0 = "CHR ''-''" and mid = "''openai''" and ?c2.0 = "CHR ''-''"
            and k = "''KEY''" and ?c3.0 = "CHR ''_''" and h = "''here''",
          THEN conjunct1, THEN mp, OF nt, THEN conjunct2, THEN conjunct2, THEN conjunct1, THEN mp])
      code_simp
  have r1: "\<not> validateApiKey [''TEST_MODE'' \<mapsto> ''true''] ''openai'' ''sk-x_placeholder''"
    unfolding relaxed by code_simp
  have r2: "validateApiKey [''TEST_MODE'' \<mapsto> ''true''] ''openai'' ''dummy''"
    unfolding relaxed by code_simp
  from nt d p t tm r1 r2 show ?thesis
    by simp
qed

subsection \<open>Cached environment lookups and the temperature chain\<close>

lemma get_coherent:
  "cache_coherent process_env c \<Longrightarrow>
     cache_coherent process_env (snd (EnvironmentCache_get k t now c))"
  by (auto simp: EnvironmentCache_get_def cache_coherent_def Let_def split: option.splits)

lemma get_coherent_value:
  assumes "cache_coherent process_env c"
    and "fst (EnvironmentCache_get (''env_'' @ key) t now c) = Some v"
  shows "process_env key = Some v"
proof (cases "cache c (''env_'' @ key)")
  case None
  with assms(2) show ?thesis by (simp add: EnvironmentCache_get_def)
next
  case (Some entry)
  with assms(2) have "entry_value entry = Some v"
    by (simp add: EnvironmentCache_get_def Let_def split: if_splits)
  moreover from assms(1) Some
  have "entry_value entry = None \<or> entry_value entry = process_env key"
    unfolding cache_coherent_def by (elim allE impE) simp_all
  ultimately show ?thesis by simp
qed

lemma set_coherent:
  "cache_coherent process_env c \<Longrightarrow>
     cache_coherent process_env
       (EnvironmentCache_set (''env_'' @ key) (process_env key) t now c)"
  by (simp add: EnvironmentCache_set_def cache_coherent_def)

lemma resolve_unfold:
  "resolveEnvVariableCached process_env now key c =
     (case fst (EnvironmentCache_get (''env_'' @ key) None now c) of
        Some v \<Rightarrow> (Some v, snd (EnvironmentCache_get (''env_'' @ key) None now c))
      | None \<Rightarrow> (process_env key,
           EnvironmentCache_set (''env_'' @ key) (process_env key) None now
             (snd (EnvironmentCache_get (''env_'' @ key) None now c))))"
  by (simp add: resolveEnvVariableCached_def Let_def split: prod.splits option.splits)

lemma resolve_coherent:
  assumes "cache_coherent process_env c"
  shows "fst (resolveEnvVariableCached process_env now key c) = process_env key
       \<and> cache_coherent process_env (snd (resolveEnvVariableCached process_env now key c))"
proof (cases "fst (EnvironmentCache_get (''env_'' @ key) None now c)")
  case None
  then show ?thesis
    by (simp add: resolve_unfold set_coherent get_coherent [OF assms] del: append.simps)
next
  case (Some v)
  with get_coherent_value [OF assms Some] show ?thesis
    by (simp add: resolve_unfold get_coherent [OF assms] del: append.simps)
qed

lemma resolve_coherent_eq:
  assumes "cache_coherent process_env c"
  obtains c' where "resolveEnvVariableCached process_env now key c = (process_env key, c')"
    and "cache_coherent process_env c'"
  using resolve_coherent [OF assms, of now key] by (metis prod.collapse)

lemma temperature_tier_Some:
  "temperature_tier Number v = Some t \<longleftrightarrow>
     (\<exists>text r. v = Some text \<and> trim text \<noteq> [] \<and> Number (trim text) = Num r \<and> t = Num r
        \<and> 0 \<le> r \<and> r \<le> 2)"
proof (cases v)
  case None
  then show ?thesis by (simp add: temperature_tier_def)
next
  case (Some str)
  then show ?thesis
    by (cases "Number (trim str)") (auto simp: temperature_tier_def isNaN_def Let_def)
qed

lemma getTemperature_coherent:
  assumes "cache_coherent process_env c"
  shows "fst (getTemperature Number toUpperCase process_env now providerName c) =
     (case temperature_tier Number (process_env (toUpperCase providerName @ ''_TEMPERATURE'')) of
        Some temp \<Rightarrow> Inr temp
      | None \<Rightarrow>
         (case temperature_tier Number (process_env ''LLM_TEMPERATURE'') of
            Some temp \<Rightarrow> Inr temp
          | None \<Rightarrow>
             (case temperature_tier Number (process_env ''LLM_TEMPERATURE_DEFAULT'') of
                Some temp \<Rightarrow> Inr temp
              | None \<Rightarrow> Inl \<lparr>message = ''Temperature configuration missing for '' @ providerName,
                               category = CONFIGURATION, code = ''TEMPERATURE_NOT_SET'',
                               provider = Some providerName\<rparr>)))"
proof -
  from resolve_coherent_eq [OF assms]
  obtain c1 where r1: "resolveEnvVariableCached process_env now
        (toUpperCase providerName @ ''_TEMPERATURE'') c
      = (process_env (toUpperCase providerName @ ''_TEMPERATURE''), c1)"
    and co1: "cache_coherent process_env c1" .
  from resolve_coherent_eq [OF co1]
  obtain c2 where r2: "resolveEnvVariableCached process_env now ''LLM_TEMPERATURE'' c1
      = (process_env ''LLM_TEMPERATURE'', c2)"
    and co2: "cache_coherent process_env c2" .
  from resolve_coherent_eq [OF co2]
  obtain c3 where r3: "resolveEnvVariableCached process_env now ''LLM_TEMPERATURE_DEFAULT'' c2
      = (process_env ''LLM_TEMPERATURE_DEFAULT'', c3)" .
  show ?thesis
    by (simp add: getTemperature_def r1 r2 r3 split: option.splits)
qed

lemma upper_openai: "toUpperCase_ascii ''openai'' = ''OPENAI''"
  by code_simp

lemma trim_examples: "trim ''0.5'' = ''0.5''" "trim ''0.9'' = ''0.9''"
  by (simp_all add: trim_def js_whitespace_def)

text \<open>
  Claim C4. With a cache that agrees with the process environment, \<^verbatim>\<open>getTemperature\<close>
  consults \<^verbatim>\<open>{PROVIDER}_TEMPERATURE\<close> (the provider's name as \<^verbatim>\<open>toUpperCase()\<close> gives it,
  whatever the name), \<^verbatim>\<open>LLM_TEMPERATURE\<close> and \<^verbatim>\<open>LLM_TEMPERATURE_DEFAULT\<close> in this order. A tier is accepted exactly when its variable is
  set, is not blank and converts (by \<^verbatim>\<open>Number\<close>, after trimming) to a number between 0
  and 2; the first accepted value is returned, and when no tier is accepted an error of
  category CONFIGURATION is thrown. With only \<^verbatim>\<open>LLM_TEMPERATURE_DEFAULT=0.5\<close> set the result
  for \<^verbatim>\<open>openai\<close> is 0.5, and with \<^verbatim>\<open>OPENAI_TEMPERATURE=0.9\<close> set it is 0.9.
\<close>

theorem C4_temperature_chain:
  fixes Number :: "string \<Rightarrow> jsnum" and toUpperCase :: "string \<Rightarrow> string"
    and process_env :: env_vars
    and now :: int and providerName :: string and c :: "string EnvironmentCache"
  assumes coherent: "cache_coherent process_env c"
  defines "tier key \<equiv> temperature_tier Number (process_env key)"
  defines "result \<equiv> fst (getTemperature Number toUpperCase process_env now providerName c)"
  shows "(\<forall>t. tier (toUpperCase providerName @ ''_TEMPERATURE'') = Some t \<longrightarrow> result = Inr t)
    \<and> (\<forall>t. tier (toUpperCase providerName @ ''_TEMPERATURE'') = None
           \<and> tier ''LLM_TEMPERATURE'' = Some t \<longrightarrow> result = Inr t)
    \<and> (\<forall>t. tier (toUpperCase providerName @ ''_TEMPERATURE'') = None
           \<and> tier ''LLM_TEMPERATURE'' = None
           \<and> tier ''LLM_TEMPERATURE_DEFAULT'' = Some t \<longrightarrow> result = Inr t)
    \<and> (tier (toUpperCase providerName @ ''_TEMPERATURE'') = None
           \<and> tier ''LLM_TEMPERATURE'' = None
           \<and> tier ''LLM_TEMPERATURE_DEFAULT'' = None \<longrightarrow>
         (\<exists>e. result = Inl e \<and> category e = CONFIGURATION))
    \<and> (\<forall>key t. tier key = Some t \<longleftrightarrow>
          (\<exists>str r. process_env key = Some str \<and> trim str \<noteq> [] \<and> Number (trim str) = Num r
             \<and> t = Num r \<and> 0 \<le> r \<and> r \<le> 2))
    \<and> (providerName = ''openai'' \<and> toUpperCase ''openai'' = ''OPENAI''
           \<and> process_env ''OPENAI_TEMPERATURE'' = None
           \<and> process_env ''LLM_TEMPERATURE'' = None
           \<and> process_env ''LLM_TEMPERATURE_DEFAULT'' = Some ''0.5''
           \<and> Number ''0.5'' = Num (1 / 2) \<longrightarrow> result = Inr (Num (1 / 2)))
    \<and> (providerName = ''openai'' \<and> toUpperCase ''openai'' = ''OPENAI''
           \<and> process_env ''OPENAI_TEMPERATURE'' = Some ''0.9''
           \<and> Number ''0.9'' = Num (9 / 10) \<longrightarrow> result = Inr (Num (9 / 10)))"
proof -
  note r = getTemperature_coherent [OF coherent, of Number toUpperCase now providerName,
      folded tier_def result_def]
  have a: "\<forall>t. tier (toUpperCase providerName @ ''_TEMPERATURE'') = Some t \<longrightarrow> result = Inr t"
    by (simp add: r)
  have b: "\<forall>t. tier (toUpperCase providerName @ ''_TEMPERATURE'') = None
           \<and> tier ''LLM_TEMPERATURE'' = Some t \<longrightarrow> result = Inr t"
    by (simp add: r)
  have c: "\<forall>t. tier (toUpperCase providerName @ ''_TEMPERATURE'') = None
           \<and> tier ''LLM_TEMPERATURE'' = None
           \<and> tier ''LLM_TEMPERATURE_DEFAULT'' = Some t \<longrightarrow> result = Inr t"
    by (simp add: r)
  have d: "tier (toUpperCase providerName @ ''_TEMPERATURE'') = None
           \<and> tier ''LLM_TEMPERATURE'' = None
           \<and> tier ''LLM_TEMPERATURE_DEFAULT'' = None \<longrightarrow>
         (\<exists>e. result = Inl e \<and> category e = CONFIGURATION)"
    by (simp add: r)
  have e: "\<forall>key t. tier key = Some t \<longleftrightarrow>
          (\<exists>str r. process_env key = Some str \<and> trim str \<noteq> [] \<and> Number (trim str) = Num r
             \<and> t = Num r \<and> 0 \<le> r \<and> r \<le> 2)"
    unfolding tier_def temperature_tier_Some by simp
  have f: "providerName = ''openai'' \<and> toUpperCase ''openai'' = ''OPENAI''
           \<and> process_env ''OPENAI_TEMPERATURE'' = None
           \<and> process_env ''LLM_TEMPERATURE'' = None
           \<and> process_env ''LLM_TEMPERATURE_DEFAULT'' = Some ''0.5''
           \<and> Number ''0.5'' = Num (1 / 2) \<longrightarrow> result = Inr (Num (1 / 2))"
  proof (intro impI, elim conjE)
    assume that: "providerName = ''openai''" "process_env ''OPENAI_TEMPERATURE'' = None"
      "process_env ''LLM_TEMPERATURE'' = None" "process_env ''LLM_TEMPERATURE_DEFAULT'' = Some ''0.5''"
      "Number ''0.5'' = Num (1 / 2)"
      and upper_openai: "toUpperCase ''openai'' = ''OPENAI''"
    have "tier (toUpperCase providerName @ ''_TEMPERATURE'') = None"
      using that by (simp add: tier_def upper_openai temperature_tier_def)
    moreover have "tier ''LLM_TEMPERATURE'' = None"
      using that by (simp add: tier_def temperature_tier_def)
    moreover have "tier ''LLM_TEMPERATURE_DEFAULT'' = Some (Num (1 / 2))"
      using that by (simp add: tier_def temperature_tier_def trim_examples isNaN_def)
    ultimately show "result = Inr (Num (1 / 2))" using c by simp
  qed
  have g: "providerName = ''openai'' \<and> toUpperCase ''openai'' = ''OPENAI''
           \<and> process_env ''OPENAI_TEMPERATURE'' = Some ''0.9''
           \<and> Number ''0.9'' = Num (9 / 10) \<longrightarrow> result = Inr (Num (9 / 10))"
  proof (intro impI, elim conjE)
    assume that: "providerName = ''openai''" "process_env ''OPENAI_TEMPERATURE'' = Some ''0.9''"
      "Number ''0.9'' = Num (9 / 10)"
      and upper_openai: "toUpperCase ''openai'' = ''OPENAI''"
    have "tier (toUpperCase providerName @ ''_TEMPERATURE'') = Some (Num (9 / 10))"
      using that by (simp add: tier_def upper_openai temperature_tier_def trim_examples isNaN_def)
    then show "result = Inr (Num (9 / 10))" using a by simp
  qed
  from a b c d e f g show ?thesis
    by (intro conjI) assumption+
qed

lemma new_cache_coherent: "cache_coherent process_env (new_EnvironmentCache d)"
  by (simp add: cache_coherent_def new_EnvironmentCache_def)

theorem C4_temperature_chain_witness:
  "cache_coherent [''LLM_TEMPERATURE_DEFAULT'' \<mapsto> ''0.5''] (new_EnvironmentCache (Some (Finite 30000)))
   \<and> fst (getTemperature Number_fragment toUpperCase_ascii [''LLM_TEMPERATURE_DEFAULT'' \<mapsto> ''0.5''] 0 ''openai''
          (new_EnvironmentCache (Some (Finite 30000)))) = Inr (Num (1 / 2))
   \<and> fst (getTemperature Number_fragment toUpperCase_ascii
          [''LLM_TEMPERATURE_DEFAULT'' \<mapsto> ''0.5'', ''OPENAI_TEMPERATURE'' \<mapsto> ''0.9''] 0 ''openai''
          (new_EnvironmentCache (Some (Finite 30000)))) = Inr (Num (9 / 10))
   \<and> (case fst (getTemperature Number_fragment toUpperCase_ascii [''OPENAI_TEMPERATURE'' \<mapsto> ''2.5''] 0 ''openai''
          (new_EnvironmentCache (Some (Finite 30000))))
        of Inl e \<Rightarrow> category e = CONFIGURATION | Inr t \<Rightarrow> False)"
proof -
  let ?c = "new_EnvironmentCache (Some (Finite 30000)) :: string EnvironmentCache"
  have a: "fst (getTemperature Number_fragment toUpperCase_ascii [''LLM_TEMPERATURE_DEFAULT'' \<mapsto> ''0.5''] 0 ''openai'' ?c)
      = Inr (Num (1 / 2))"
    by (rule C4_temperature_chain [OF new_cache_coherent,
          where Number = Number_fragment and toUpperCase = toUpperCase_ascii
            and providerName = "''openai''",
          THEN conjunct2, THEN conjunct2, THEN conjunct2, THEN conjunct2, THEN conjunct2,
          THEN conjunct1, THEN mp])
      (simp add: Number_fragment_def upper_openai)
  have b: "fst (getTemperature Number_fragment toUpperCase_ascii
          [''LLM_TEMPERATURE_DEFAULT'' \<mapsto> ''0.5'', ''OPENAI_TEMPERATURE'' \<mapsto> ''0.9''] 0 ''openai'' ?c)
      = Inr (Num (9 / 10))"
    by (rule C4_temperature_chain [OF new_cache_coherent,
          where Number = Number_fragment and toUpperCase = toUpperCase_ascii
            and providerName = "''openai''",
          THEN conjunct2, THEN conjunct2, THEN conjunct2, THEN conjunct2, THEN conjunct2,
          THEN conjunct2, THEN mp])
      (simp add: Number_fragment_def upper_openai)
  have "\<exists>e. fst (getTemperature Number_fragment toUpperCase_ascii [''OPENAI_TEMPERATURE'' \<mapsto> ''2.5''] 0 ''openai'' ?c)
          = Inl e \<and> category e = CONFIGURATION"
    by (rule C4_temperature_chain [OF new_cache_coherent,
          where Number = Number_fragment and toUpperCase = toUpperCase_ascii
            and providerName = "''openai''",
          THEN conjunct2, THEN conjunct2, THEN conjunct2, THEN conjunct1, THEN mp])
      (simp add: Number_fragment_def temperature_tier_def upper_openai trim_def js_whitespace_def
        isNaN_def)
  then have c: "case fst (getTemperature Number_fragment toUpperCase_ascii [''OPENAI_TEMPERATURE'' \<mapsto> ''2.5''] 0
          ''openai'' ?c) of Inl e \<Rightarrow> category e = CONFIGURATION | Inr t \<Rightarrow> False"
    by (elim exE conjE) simp
  from a b c new_cache_coherent show ?thesis
    by (intro conjI) assumption+
qed

subsection \<open>Provider selection\<close>

lemma getApiKey_coherent:
  assumes "cache_coherent process_env c"
  obtains c' where
    "getApiKey api_keys process_env now providerName c =
       ((case api_keys providerName of
           None \<Rightarrow> None
         | Some envKey \<Rightarrow>
             if envKey = [] then None
             else (case process_env envKey of
                     None \<Rightarrow> None
                   | Some k \<Rightarrow> if trim k = [] then None else Some (trim k))), c')"
    and "cache_coherent process_env c'"
proof (cases "api_keys providerName")
  case None
  with assms that show ?thesis by (simp add: getApiKey_def)
next
  case (Some envKey)
  from resolve_coherent_eq [OF assms]
  obtain c1 where r: "resolveEnvVariableCached process_env now envKey c = (process_env envKey, c1)"
    and co: "cache_coherent process_env c1" .
  show ?thesis
  proof (cases "envKey = []")
    case True
    with Some assms that show ?thesis by (simp add: getApiKey_def)
  next
    case False
    have "getApiKey api_keys process_env now providerName c =
       ((case process_env envKey of
                     None \<Rightarrow> None
                   | Some k \<Rightarrow> if trim k = [] then None else Some (trim k)), c1)"
      using Some False r by (auto simp: getApiKey_def trim_def split: option.splits)
    with Some False co that show ?thesis by simp
  qed
qed

lemma isProviderConfigured_coherent:
  assumes "cache_coherent process_env c"
  obtains c' where
    "isProviderConfigured api_keys process_env now providerName c =
       (configured api_keys process_env providerName, c')"
    and "cache_coherent process_env c'"
proof -
  from getApiKey_coherent [OF assms, of api_keys now providerName]
  obtain c1 where k: "getApiKey api_keys process_env now providerName c =
       ((case api_keys providerName of
           None \<Rightarrow> None
         | Some envKey \<Rightarrow>
             if envKey = [] then None
             else (case process_env envKey of
                     None \<Rightarrow> None
                   | Some k \<Rightarrow> if trim k = [] then None else Some (trim k))), c1)"
    and co: "cache_coherent process_env c1" .
  have "isProviderConfigured api_keys process_env now providerName c =
       (configured api_keys process_env providerName, c1)"
    by (simp add: isProviderConfigured_def k configured_def split: option.splits)
  with co that show ?thesis by simp
qed

lemma getDefaultProvider_coherent:
  assumes "cache_coherent process_env c"
  obtains c' where
    "getDefaultProvider process_env now c =
       ((case process_env ''DEFAULT_LLM_PROVIDER'' of
           None \<Rightarrow> Inl \<lparr>message = ''Default provider configuration missing'',
                    category = CONFIGURATION, code = ''DEFAULT_PROVIDER_NOT_SET'',
                    provider = None\<rparr>
         | Some d \<Rightarrow> if trim d = []
             then Inl \<lparr>message = ''Default provider configuration missing'',
                    category = CONFIGURATION, code = ''DEFAULT_PROVIDER_NOT_SET'',
                    provider = None\<rparr>
             else Inr (trim d)), c')"
    and "cache_coherent process_env c'"
proof -
  from resolve_coherent_eq [OF assms]
  obtain c1 where r: "resolveEnvVariableCached process_env now ''DEFAULT_LLM_PROVIDER'' c
      = (process_env ''DEFAULT_LLM_PROVIDER'', c1)"
    and co: "cache_coherent process_env c1" .
  have "getDefaultProvider process_env now c =
       ((case process_env ''DEFAULT_LLM_PROVIDER'' of
           None \<Rightarrow> Inl \<lparr>message = ''Default provider configuration missing'',
                    category = CONFIGURATION, code = ''DEFAULT_PROVIDER_NOT_SET'',
                    provider = None\<rparr>
         | Some d \<Rightarrow> if trim d = []
             then Inl \<lparr>message = ''Default provider configuration missing'',
                    category = CONFIGURATION, code = ''DEFAULT_PROVIDER_NOT_SET'',
                    provider = None\<rparr>
             else Inr (trim d)), c1)"
    by (simp add: getDefaultProvider_def r split: option.splits)
  with co that show ?thesis by simp
qed

lemma first_configured_coherent:
  assumes "cache_coherent process_env c"
  shows "\<exists>c'. first_configured api_keys process_env now ps c
           = (find (configured api_keys process_env) ps, c')
         \<and> cache_coherent process_env c'"
  using assms
proof (induction ps arbitrary: c)
  case Nil
  then show ?case by simp
next
  case (Cons p ps)
  from isProviderConfigured_coherent [OF Cons.prems, of api_keys now p]
  obtain c1 where k: "isProviderConfigured api_keys process_env now p c =
       (configured api_keys process_env p, c1)"
    and co: "cache_coherent process_env c1" .
  show ?case
  proof (cases "configured api_keys process_env p")
    case True
    with k co show ?thesis by simp
  next
    case False
    with k Cons.IH [OF co] show ?thesis by simp
  qed
qed

lemma getConfiguredProviders_none:
  assumes "cache_coherent process_env c"
    and "\<forall>n \<in> set supported. \<not> configured api_keys process_env n"
  shows "\<exists>c'. getConfiguredProviders toUpperCase api_keys process_env now supported c
           = (Inr (map (\<lambda>n. \<lparr>provider_name = n, provider_model = None,
                              provider_hasApiKey = False\<rparr>) supported), c')
         \<and> cache_coherent process_env c'"
  using assms
proof (induction supported arbitrary: c)
  case Nil
  then show ?case by simp
next
  case (Cons n rest)
  from getApiKey_coherent [OF Cons.prems(1), of api_keys now n]
  obtain c1 where k: "getApiKey api_keys process_env now n c =
       ((case api_keys n of
           None \<Rightarrow> None
         | Some envKey \<Rightarrow>
             if envKey = [] then None
             else (case process_env envKey of
                     None \<Rightarrow> None
                   | Some k \<Rightarrow> if trim k = [] then None else Some (trim k))), c1)"
    and co: "cache_coherent process_env c1" .
  from Cons.prems(2) have no: "\<not> configured api_keys process_env n"
    and rest: "\<forall>n \<in> set rest. \<not> configured api_keys process_env n"
    by simp_all
  from no have h: "(case (case api_keys n of
           None \<Rightarrow> None
         | Some envKey \<Rightarrow>
             if envKey = [] then None
             else (case process_env envKey of
                     None \<Rightarrow> None
                   | Some k \<Rightarrow> if trim k = [] then None else Some (trim k)))
        of Some k \<Rightarrow> validateApiKey process_env n k | None \<Rightarrow> False) = False"
    by (auto simp: configured_def split: option.splits)
  from Cons.IH [OF co rest] obtain c2 where
    r: "getConfiguredProviders toUpperCase api_keys process_env now rest c1
           = (Inr (map (\<lambda>n. \<lparr>provider_name = n, provider_model = None,
                              provider_hasApiKey = False\<rparr>) rest), c2)"
    and co2: "cache_coherent process_env c2" by (elim exE conjE)
  show ?case
    by (simp add: k h r co2 Let_def)
qed

lemma configured_names_none:
  assumes "cache_coherent process_env c"
    and "\<forall>n \<in> set supported. \<not> configured api_keys process_env n"
  shows "\<exists>c'. configured_names toUpperCase api_keys process_env now supported c = (Inr [], c')
         \<and> cache_coherent process_env c'"
proof -
  from getConfiguredProviders_none [OF assms, where now = now and toUpperCase = toUpperCase] obtain c1 where
    r: "getConfiguredProviders toUpperCase api_keys process_env now supported c
           = (Inr (map (\<lambda>n. \<lparr>provider_name = n, provider_model = None,
                              provider_hasApiKey = False\<rparr>) supported), c1)"
    and co: "cache_coherent process_env c1" by (elim exE conjE)
  have "filter provider_hasApiKey (map (\<lambda>n. \<lparr>provider_name = n, provider_model = None,
                              provider_hasApiKey = False\<rparr>) supported) = []"
    by (induction supported) simp_all
  then show ?thesis
    by (simp add: configured_names_def r co)
qed

text \<open>The list that \<^verbatim>\<open>getProviderPriority\<close> parses from a value of the priority variable.\<close>

lemma getProviderPriority_listed:
  assumes "cache_coherent process_env c"
    and "process_env ''PROVIDER_SELECTION_PRIORITY'' = Some p" "trim p \<noteq> []"
    and "filter (\<lambda>q. length q > 0) (map trim (split_on CHR '','' p)) = providers"
    and "providers \<noteq> []"
  shows "\<exists>c'. getProviderPriority toUpperCase supported api_keys process_env now c =
           (if set providers \<subseteq> set supported then Inr providers
            else Inl \<lparr>message = ''Invalid providers in priority configuration: ''
                        @ concat (map (\<lambda>q. q @ '', '')
                            (butlast (filter (\<lambda>q. q \<notin> set supported) providers)))
                        @ last (filter (\<lambda>q. q \<notin> set supported) providers),
                      category = CONFIGURATION, code = ''INVALID_PROVIDERS'', provider = None\<rparr>, c')
         \<and> cache_coherent process_env c'"
proof -
  from resolve_coherent_eq [OF assms(1)]
  obtain c1 where r: "resolveEnvVariableCached process_env now ''PROVIDER_SELECTION_PRIORITY'' c
      = (process_env ''PROVIDER_SELECTION_PRIORITY'', c1)"
    and co: "cache_coherent process_env c1" .
  have "(filter (\<lambda>q. q \<notin> set supported) providers = []) = (set providers \<subseteq> set supported)"
    by (auto simp: filter_empty_conv)
  then show ?thesis
    using assms(2-5) co
    by (simp add: getProviderPriority_def r Let_def del: split_on.simps)
qed

lemma getProviderPriority_fallback_none:
  assumes "cache_coherent process_env c"
    and "case process_env ''PROVIDER_SELECTION_PRIORITY'' of None \<Rightarrow> True
         | Some p \<Rightarrow> trim p = [] \<or> filter (\<lambda>q. length q > 0) (map trim (split_on CHR '','' p)) = []"
    and "process_env ''DEFAULT_LLM_PROVIDER'' = Some d" "trim d \<noteq> []"
    and "\<forall>n \<in> set supported. \<not> configured api_keys process_env n"
  shows "\<exists>c'. getProviderPriority toUpperCase supported api_keys process_env now c = (Inr [trim d], c')
         \<and> cache_coherent process_env c'"
proof -
  from resolve_coherent_eq [OF assms(1)]
  obtain c1 where r: "resolveEnvVariableCached process_env now ''PROVIDER_SELECTION_PRIORITY'' c
      = (process_env ''PROVIDER_SELECTION_PRIORITY'', c1)"
    and co: "cache_coherent process_env c1" .
  from getDefaultProvider_coherent [OF co, of now]
  obtain c2 where dp0: "getDefaultProvider process_env now c1 =
       ((case process_env ''DEFAULT_LLM_PROVIDER'' of
           None \<Rightarrow> Inl \<lparr>message = ''Default provider configuration missing'',
                    category = CONFIGURATION, code = ''DEFAULT_PROVIDER_NOT_SET'',
                    provider = None\<rparr>
         | Some d \<Rightarrow> if trim d = []
             then Inl \<lparr>message = ''Default provider configuration missing'',
                    category = CONFIGURATION, code = ''DEFAULT_PROVIDER_NOT_SET'',
                    provider = None\<rparr>
             else Inr (trim d)), c2)"
    and co2: "cache_coherent process_env c2" .
  from dp0 assms(3,4) have dp: "getDefaultProvider process_env now c1 = (Inr (trim d), c2)"
    by simp
  from configured_names_none [OF co2 assms(5), where now = now and toUpperCase = toUpperCase]
  obtain c3 where cn: "configured_names toUpperCase api_keys process_env now supported c2 = (Inr [], c3)"
    and co3: "cache_coherent process_env c3" by (elim exE conjE)
  have "(case process_env ''PROVIDER_SELECTION_PRIORITY'' of
                         None \<Rightarrow> []
                       | Some p \<Rightarrow> if trim p = [] then []
                                  else filter (\<lambda>q. length q > 0) (map trim (split_on CHR '','' p))) = []"
    using assms(2) by (auto split: option.splits simp del: split_on.simps)
  then show ?thesis
    by (simp add: getProviderPriority_def r dp cn co3 Let_def del: split_on.simps)
qed

lemma getBestAvailableProvider_unset:
  assumes "cache_coherent process_env c"
    and "case process_env ''DEFAULT_LLM_PROVIDER'' of None \<Rightarrow> True | Some d \<Rightarrow> trim d = []"
  shows "fst (getBestAvailableProvider toUpperCase supported api_keys process_env now c) =
           Inl \<lparr>message = ''Default provider configuration missing'',
                category = CONFIGURATION, code = ''DEFAULT_PROVIDER_NOT_SET'', provider = None\<rparr>"
proof -
  from getDefaultProvider_coherent [OF assms(1), of now]
  obtain c1 where dp0: "getDefaultProvider process_env now c =
       ((case process_env ''DEFAULT_LLM_PROVIDER'' of
           None \<Rightarrow> Inl \<lparr>message = ''Default provider configuration missing'',
                    category = CONFIGURATION, code = ''DEFAULT_PROVIDER_NOT_SET'',
                    provider = None\<rparr>
         | Some d \<Rightarrow> if trim d = []
             then Inl \<lparr>message = ''Default provider configuration missing'',
                    category = CONFIGURATION, code = ''DEFAULT_PROVIDER_NOT_SET'',
                    provider = None\<rparr>
             else Inr (trim d)), c1)" .
  with assms(2) show ?thesis
    by (simp add: getBestAvailableProvider_def split: option.splits)
qed

lemma getBestAvailableProvider_set:
  assumes "cache_coherent process_env c"
    and "process_env ''DEFAULT_LLM_PROVIDER'' = Some d" "trim d \<noteq> []"
  shows "\<exists>c2. cache_coherent process_env c2 \<and>
           fst (getBestAvailableProvider toUpperCase supported api_keys process_env now c) =
           (if configured api_keys process_env (trim d) then Inr (Some (trim d))
            else (case getProviderPriority toUpperCase supported api_keys process_env now c2 of
                    (Inl e, c3) \<Rightarrow> Inl e
                  | (Inr providerPriority, c3) \<Rightarrow>
                      Inr (fst (first_configured api_keys process_env now providerPriority c3))))"
proof -
  from getDefaultProvider_coherent [OF assms(1), of now]
  obtain c1 where dp0: "getDefaultProvider process_env now c =
       ((case process_env ''DEFAULT_LLM_PROVIDER'' of
           None \<Rightarrow> Inl \<lparr>message = ''Default provider configuration missing'',
                    category = CONFIGURATION, code = ''DEFAULT_PROVIDER_NOT_SET'',
                    provider = None\<rparr>
         | Some d \<Rightarrow> if trim d = []
             then Inl \<lparr>message = ''Default provider configuration missing'',
                    category = CONFIGURATION, code = ''DEFAULT_PROVIDER_NOT_SET'',
                    provider = None\<rparr>
             else Inr (trim d)), c1)"
    and co1: "cache_coherent process_env c1" .
  from dp0 assms(2,3) have dp: "getDefaultProvider process_env now c = (Inr (trim d), c1)"
    by simp
  from isProviderConfigured_coherent [OF co1, of api_keys now "trim d"]
  obtain c2 where k: "isProviderConfigured api_keys process_env now (trim d) c1 =
       (configured api_keys process_env (trim d), c2)"
    and co2: "cache_coherent process_env c2" .
  have r: "fst (getBestAvailableProvider toUpperCase supported api_keys process_env now c) =
           (if configured api_keys process_env (trim d) then Inr (Some (trim d))
            else (case getProviderPriority toUpperCase supported api_keys process_env now c2 of
                    (Inl e, c3) \<Rightarrow> Inl e
                  | (Inr providerPriority, c3) \<Rightarrow>
                      Inr (fst (first_configured api_keys process_env now providerPriority c3))))"
    using assms(3)
    by (simp add: getBestAvailableProvider_def dp k split: prod.splits sum.splits)
  show ?thesis
    by (rule exI [of _ c2]) (simp only: co2 r simp_thms)
qed

text \<open>
  Claim C3 as stated fails: \<^verbatim>\<open>getBestAvailableProvider\<close> starts with
  \<^verbatim>\<open>getDefaultProvider()\<close>, which throws when \<^verbatim>\<open>DEFAULT_LLM_PROVIDER\<close> is not set. With
  \<^verbatim>\<open>openai\<close> configured and first in the priority list, but no default named, the call
  throws instead of walking the list.
\<close>

theorem C3_default_unset_counterexample:
  "configured example_api_keys
      [''PROVIDER_SELECTION_PRIORITY'' \<mapsto> ''openai'', ''OPENAI_API_KEY'' \<mapsto> ''sk-abc123realkey'']
      ''openai''
   \<and> fst (getBestAvailableProvider toUpperCase_ascii example_providers example_api_keys
        [''PROVIDER_SELECTION_PRIORITY'' \<mapsto> ''openai'', ''OPENAI_API_KEY'' \<mapsto> ''sk-abc123realkey'']
        0 (new_EnvironmentCache (Some (Finite 30000))))
     = Inl \<lparr>message = ''Default provider configuration missing'',
            category = CONFIGURATION, code = ''DEFAULT_PROVIDER_NOT_SET'', provider = None\<rparr>"
proof -
  have "configured example_api_keys
      [''PROVIDER_SELECTION_PRIORITY'' \<mapsto> ''openai'', ''OPENAI_API_KEY'' \<mapsto> ''sk-abc123realkey'']
      ''openai''"
    by (simp add: configured_def example_api_keys_def validateApiKey_def placeholderPatterns_def
        regex_test_def trim_def test_mode_def js_whitespace_def toLowerCase_char_def
        line_terminator_def startsWith_def)
  moreover have "fst (getBestAvailableProvider toUpperCase_ascii example_providers example_api_keys
        [''PROVIDER_SELECTION_PRIORITY'' \<mapsto> ''openai'', ''OPENAI_API_KEY'' \<mapsto> ''sk-abc123realkey'']
        0 (new_EnvironmentCache (Some (Finite 30000))))
     = Inl \<lparr>message = ''Default provider configuration missing'',
            category = CONFIGURATION, code = ''DEFAULT_PROVIDER_NOT_SET'', provider = None\<rparr>"
    by (simp add: getBestAvailableProvider_def getDefaultProvider_def resolveEnvVariableCached_def
        EnvironmentCache_get_def EnvironmentCache_set_def new_EnvironmentCache_def)
  ultimately show ?thesis by (rule conjI)
qed

text \<open>
  Claim C3, amended. With a cache that agrees with the process environment: when
  \<^verbatim>\<open>DEFAULT_LLM_PROVIDER\<close> is unset or blank, \<^verbatim>\<open>getBestAvailableProvider\<close> throws a
  CONFIGURATION error. When it names a provider and that provider is configured, the
  name is returned. When it names a provider that is not configured and
  \<^verbatim>\<open>PROVIDER_SELECTION_PRIORITY\<close> lists names (comma-separated, trimmed, empty items
  dropped), a listed name outside the supported set is a CONFIGURATION error, and
  otherwise the first configured provider of the list is returned, \<^verbatim>\<open>null\<close> when the
  list has none. When a default is named, no provider at all is configured and the list
  has no unsupported name, the result is \<^verbatim>\<open>null\<close>, with no error thrown.
\<close>

theorem C3_best_available_provider:
  fixes toUpperCase :: "string \<Rightarrow> string"
    and supported :: "string list" and api_keys :: "string \<rightharpoonup> string"
    and process_env :: env_vars and now :: int and c :: "string EnvironmentCache"
  assumes coherent: "cache_coherent process_env c"
  defines "result \<equiv> fst (getBestAvailableProvider toUpperCase supported api_keys process_env now c)"
  defines "listed \<equiv> (case process_env ''PROVIDER_SELECTION_PRIORITY'' of
                         None \<Rightarrow> []
                       | Some p \<Rightarrow> if trim p = [] then []
                                  else filter (\<lambda>q. length q > 0) (map trim (split_on CHR '','' p)))"
  shows "((case process_env ''DEFAULT_LLM_PROVIDER'' of None \<Rightarrow> True | Some d \<Rightarrow> trim d = []) \<longrightarrow>
            (\<exists>e. result = Inl e \<and> category e = CONFIGURATION
                 \<and> code e = ''DEFAULT_PROVIDER_NOT_SET''))
    \<and> (\<forall>d. process_env ''DEFAULT_LLM_PROVIDER'' = Some d \<and> trim d \<noteq> []
            \<and> configured api_keys process_env (trim d) \<longrightarrow> result = Inr (Some (trim d)))
    \<and> (\<forall>d. process_env ''DEFAULT_LLM_PROVIDER'' = Some d \<and> trim d \<noteq> []
            \<and> \<not> configured api_keys process_env (trim d)
            \<and> listed \<noteq> [] \<and> \<not> set listed \<subseteq> set supported \<longrightarrow>
            (\<exists>e. result = Inl e \<and> category e = CONFIGURATION \<and> code e = ''INVALID_PROVIDERS''))
    \<and> (\<forall>d. process_env ''DEFAULT_LLM_PROVIDER'' = Some d \<and> trim d \<noteq> []
            \<and> \<not> configured api_keys process_env (trim d)
            \<and> listed \<noteq> [] \<and> set listed \<subseteq> set supported \<longrightarrow>
            result = Inr (find (configured api_keys process_env) listed))
    \<and> (\<forall>d. process_env ''DEFAULT_LLM_PROVIDER'' = Some d \<and> trim d \<noteq> []
            \<and> (\<forall>p. \<not> configured api_keys process_env p)
            \<and> set listed \<subseteq> set supported \<longrightarrow> result = Inr None)"
proof -
  have unset: "(case process_env ''DEFAULT_LLM_PROVIDER'' of None \<Rightarrow> True | Some d \<Rightarrow> trim d = []) \<longrightarrow>
            (\<exists>e. result = Inl e \<and> category e = CONFIGURATION
                 \<and> code e = ''DEFAULT_PROVIDER_NOT_SET'')"
    unfolding result_def
    by (intro impI) (simp add: getBestAvailableProvider_unset [OF coherent])
  have walk: "result =
           (if configured api_keys process_env (trim d) then Inr (Some (trim d))
            else if listed = [] then
              (if \<forall>n \<in> set supported. \<not> configured api_keys process_env n
               then Inr (find (configured api_keys process_env) [trim d]) else result)
            else if set listed \<subseteq> set supported
              then Inr (find (configured api_keys process_env) listed)
            else Inl \<lparr>message = ''Invalid providers in priority configuration: ''
                        @ concat (map (\<lambda>q. q @ '', '')
                            (butlast (filter (\<lambda>q. q \<notin> set supported) listed)))
                        @ last (filter (\<lambda>q. q \<notin> set supported) listed),
                      category = CONFIGURATION, code = ''INVALID_PROVIDERS'', provider = None\<rparr>)"
    if d: "process_env ''DEFAULT_LLM_PROVIDER'' = Some d" "trim d \<noteq> []" for d
  proof -
    from getBestAvailableProvider_set [OF coherent d, where supported = supported and api_keys = api_keys and now = now and toUpperCase = toUpperCase]
    obtain c2 where co2: "cache_coherent process_env c2"
      and r: "result =
           (if configured api_keys process_env (trim d) then Inr (Some (trim d))
            else (case getProviderPriority toUpperCase supported api_keys process_env now c2 of
                    (Inl e, c3) \<Rightarrow> Inl e
                  | (Inr providerPriority, c3) \<Rightarrow>
                      Inr (fst (first_configured api_keys process_env now providerPriority c3))))"
      unfolding result_def by (elim exE conjE)
    show ?thesis
    proof (cases "listed = []")
      case True
      show ?thesis
      proof (cases "\<forall>n \<in> set supported. \<not> configured api_keys process_env n")
        case none: True
        have "case process_env ''PROVIDER_SELECTION_PRIORITY'' of None \<Rightarrow> True
             | Some p \<Rightarrow> trim p = [] \<or> filter (\<lambda>q. length q > 0) (map trim (split_on CHR '','' p)) = []"
          using True unfolding listed_def
          by (auto split: option.splits if_splits simp del: split_on.simps)
        from getProviderPriority_fallback_none [OF co2 this d none, where now = now and toUpperCase = toUpperCase]
        obtain c3 where pp: "getProviderPriority toUpperCase supported api_keys process_env now c2
              = (Inr [trim d], c3)"
          and co3: "cache_coherent process_env c3" by (elim exE conjE)
        from first_configured_coherent [OF co3, of api_keys now "[trim d]"]
        obtain c4 where "first_configured api_keys process_env now [trim d] c3
           = (find (configured api_keys process_env) [trim d], c4)" by (elim exE conjE)
        then show ?thesis
          using True none by (simp add: r pp del: first_configured.simps find.simps)
      next
        case False
        with True show ?thesis by (auto simp: r)
      qed
    next
      case False
      then obtain p where p: "process_env ''PROVIDER_SELECTION_PRIORITY'' = Some p" "trim p \<noteq> []"
        and l: "filter (\<lambda>q. length q > 0) (map trim (split_on CHR '','' p)) = listed"
        unfolding listed_def by (auto split: option.splits if_splits simp del: split_on.simps)
      from getProviderPriority_listed [OF co2 p l False, where supported = supported and api_keys = api_keys and now = now and toUpperCase = toUpperCase]
      obtain c3 where pp: "getProviderPriority toUpperCase supported api_keys process_env now c2 =
           (if set listed \<subseteq> set supported then Inr listed
            else Inl \<lparr>message = ''Invalid providers in priority configuration: ''
                        @ concat (map (\<lambda>q. q @ '', '')
                            (butlast (filter (\<lambda>q. q \<notin> set supported) listed)))
                        @ last (filter (\<lambda>q. q \<notin> set supported) listed),
                      category = CONFIGURATION, code = ''INVALID_PROVIDERS'', provider = None\<rparr>, c3)"
        and co3: "cache_coherent process_env c3" by (elim exE conjE)
      from first_configured_coherent [OF co3, of api_keys now listed]
      obtain c4 where "first_configured api_keys process_env now listed c3
           = (find (configured api_keys process_env) listed, c4)" by (elim exE conjE)
      then show ?thesis
        using False by (simp add: r pp)
    qed
  qed
  have dflt: "\<forall>d. process_env ''DEFAULT_LLM_PROVIDER'' = Some d \<and> trim d \<noteq> []
            \<and> configured api_keys process_env (trim d) \<longrightarrow> result = Inr (Some (trim d))"
  proof (intro allI impI, elim conjE)
    fix d assume d: "process_env ''DEFAULT_LLM_PROVIDER'' = Some d" "trim d \<noteq> []"
      and "configured api_keys process_env (trim d)"
    with walk [OF d] show "result = Inr (Some (trim d))"
      by (simp only: if_True)
  qed
  have invalid: "\<forall>d. process_env ''DEFAULT_LLM_PROVIDER'' = Some d \<and> trim d \<noteq> []
            \<and> \<not> configured api_keys process_env (trim d)
            \<and> listed \<noteq> [] \<and> \<not> set listed \<subseteq> set supported \<longrightarrow>
            (\<exists>e. result = Inl e \<and> category e = CONFIGURATION \<and> code e = ''INVALID_PROVIDERS'')"
  proof (intro allI impI, elim conjE)
    fix d assume "process_env ''DEFAULT_LLM_PROVIDER'' = Some d" "trim d \<noteq> []"
      "\<not> configured api_keys process_env (trim d)" "listed \<noteq> []" "\<not> set listed \<subseteq> set supported"
    with walk [of d] have "result = Inl \<lparr>message = ''Invalid providers in priority configuration: ''
                        @ concat (map (\<lambda>q. q @ '', '')
                            (butlast (filter (\<lambda>q. q \<notin> set supported) listed)))
                        @ last (filter (\<lambda>q. q \<notin> set supported) listed),
                      category = CONFIGURATION, code = ''INVALID_PROVIDERS'', provider = None\<rparr>"
      by simp
    then show "\<exists>e. result = Inl e \<and> category e = CONFIGURATION \<and> code e = ''INVALID_PROVIDERS''"
      by simp
  qed
  have first: "\<forall>d. process_env ''DEFAULT_LLM_PROVIDER'' = Some d \<and> trim d \<noteq> []
            \<and> \<not> configured api_keys process_env (trim d)
            \<and> listed \<noteq> [] \<and> set listed \<subseteq> set supported \<longrightarrow>
            result = Inr (find (configured api_keys process_env) listed)"
  proof (intro allI impI, elim conjE)
    fix d assume d: "process_env ''DEFAULT_LLM_PROVIDER'' = Some d" "trim d \<noteq> []"
      and "\<not> configured api_keys process_env (trim d)" "listed \<noteq> []"
        "set listed \<subseteq> set supported"
    with walk [OF d] show "result = Inr (find (configured api_keys process_env) listed)"
      by (simp only: if_True if_False)
  qed
  have none: "\<forall>d. process_env ''DEFAULT_LLM_PROVIDER'' = Some d \<and> trim d \<noteq> []
            \<and> (\<forall>p. \<not> configured api_keys process_env p)
            \<and> set listed \<subseteq> set supported \<longrightarrow> result = Inr None"
  proof (intro allI impI, elim conjE)
    fix d assume d: "process_env ''DEFAULT_LLM_PROVIDER'' = Some d" "trim d \<noteq> []"
      and no: "\<forall>p. \<not> configured api_keys process_env p" and ok: "set listed \<subseteq> set supported"
    from no have "find (configured api_keys process_env) xs = None" for xs
      by (simp add: find_None_iff)
    with walk [OF d] no ok show "result = Inr None"
      by (simp split: if_splits del: find.simps)
  qed
  from unset dflt invalid first none show ?thesis
    by (intro conjI) assumption+
qed

theorem C3_best_available_provider_witness:
  "cache_coherent [''DEFAULT_LLM_PROVIDER'' \<mapsto> ''openai'', ''OPENAI_API_KEY'' \<mapsto> ''sk-abc123realkey'']
     (new_EnvironmentCache (Some (Finite 30000)))
   \<and> fst (getBestAvailableProvider toUpperCase_ascii example_providers example_api_keys
        [''DEFAULT_LLM_PROVIDER'' \<mapsto> ''openai'', ''OPENAI_API_KEY'' \<mapsto> ''sk-abc123realkey'']
        0 (new_EnvironmentCache (Some (Finite 30000)))) = Inr (Some ''openai'')
   \<and> fst (getBestAvailableProvider toUpperCase_ascii example_providers example_api_keys
        [''DEFAULT_LLM_PROVIDER'' \<mapsto> ''openai'', ''PROVIDER_SELECTION_PRIORITY'' \<mapsto> ''anthropic, google'',
         ''GOOGLE_API_KEY'' \<mapsto> ''sk-abc123realkey'']
        0 (new_EnvironmentCache (Some (Finite 30000)))) = Inr (Some ''google'')
   \<and> fst (getBestAvailableProvider toUpperCase_ascii example_providers example_api_keys
        [''DEFAULT_LLM_PROVIDER'' \<mapsto> ''openai'']
        0 (new_EnvironmentCache (Some (Finite 30000)))) = Inr None"
proof -
  let ?c = "new_EnvironmentCache (Some (Finite 30000)) :: string EnvironmentCache"
  let ?e1 = "[''DEFAULT_LLM_PROVIDER'' \<mapsto> ''openai'', ''OPENAI_API_KEY'' \<mapsto> ''sk-abc123realkey'']"
  let ?e2 = "[''DEFAULT_LLM_PROVIDER'' \<mapsto> ''openai'', ''PROVIDER_SELECTION_PRIORITY'' \<mapsto> ''anthropic, google'',
         ''GOOGLE_API_KEY'' \<mapsto> ''sk-abc123realkey'']"
  let ?e3 = "[''DEFAULT_LLM_PROVIDER'' \<mapsto> ''openai'']"
  have t: "trim ''openai'' = ''openai''"
    by (simp add: trim_def js_whitespace_def)
  have a: "fst (getBestAvailableProvider toUpperCase_ascii example_providers example_api_keys ?e1 0 ?c)
             = Inr (Some (trim ''openai''))"
    by (rule C3_best_available_provider [OF new_cache_coherent,
          THEN conjunct2, THEN conjunct1, THEN spec, THEN mp])
      code_simp
  have b: "fst (getBestAvailableProvider toUpperCase_ascii example_providers example_api_keys ?e2 0 ?c)
             = Inr (find (configured example_api_keys ?e2)
                 (case ?e2 ''PROVIDER_SELECTION_PRIORITY'' of
                         None \<Rightarrow> []
                       | Some p \<Rightarrow> if trim p = [] then []
                                  else filter (\<lambda>q. length q > 0) (map trim (split_on CHR '','' p))))"
    by (rule C3_best_available_provider [OF new_cache_coherent,
          THEN conjunct2, THEN conjunct2, THEN conjunct2, THEN conjunct1,
          THEN spec [of _ "''openai''"], THEN mp])
      code_simp
  have b': "find (configured example_api_keys ?e2)
                 (case ?e2 ''PROVIDER_SELECTION_PRIORITY'' of
                         None \<Rightarrow> []
                       | Some p \<Rightarrow> if trim p = [] then []
                                  else filter (\<lambda>q. length q > 0) (map trim (split_on CHR '','' p)))
             = Some ''google''"
    by code_simp
  have none: "\<forall>p. \<not> configured example_api_keys ?e3 p"
    by (auto simp: configured_def example_api_keys_def split: option.splits if_splits)
  have c: "fst (getBestAvailableProvider toUpperCase_ascii example_providers example_api_keys ?e3 0 ?c) = Inr None"
    by (rule C3_best_available_provider [OF new_cache_coherent,
          THEN conjunct2, THEN conjunct2, THEN conjunct2, THEN conjunct2,
          THEN spec [of _ "''openai''"], THEN mp])
      (simp add: none t)
  from new_cache_coherent a [unfolded t] b [unfolded b'] c show ?thesis
    by (intro conjI) assumption+
qed

subsection \<open>Reading slices of text files\<close>

lemma split_on_not_Nil [simp]: "split_on sep s \<noteq> []"
  by (induction s) (auto split: list.splits)

lemma split_on_no_sep: "sep \<notin> set s \<Longrightarrow> split_on sep s = [s]"
  by (induction s) auto

lemma split_on_append_sep:
  "split_on sep (xs @ sep # ys) = split_on sep xs @ split_on sep ys"
  by (induction xs) (auto split: list.splits)


lemma last_split_on_no_sep: "sep \<notin> set (last (split_on sep s))"
  by (induction s) (auto split: list.splits)

lemma set_split_on_no_sep: "p \<in> set (split_on sep s) \<Longrightarrow> sep \<notin> set p"
  by (induction s arbitrary: p) (auto split: list.splits if_splits)


text \<open>Appending text to a string whose pieces are known.\<close>

lemma split_on_extend:
  "split_on sep xs = ls @ [b] \<Longrightarrow>
     split_on sep (xs @ ys) = ls @ (b @ hd (split_on sep ys)) # tl (split_on sep ys)"
proof (induction xs arbitrary: ls b)
  case Nil
  then show ?case by (cases "split_on sep ys") simp_all
next
  case (Cons x xs)
  show ?case
  proof (cases "x = sep")
    case True
    with Cons.prems have "[] # split_on sep xs = ls @ [b]" by simp
    then obtain ls' where ls: "ls = [] # ls'" and xs: "split_on sep xs = ls' @ [b]"
      by (cases ls) auto
    from Cons.IH [OF xs] True ls show ?thesis by simp
  next
    case False
    obtain p ps where pps: "split_on sep xs = p # ps"
      by (cases "split_on sep xs") simp_all
    with Cons.prems False have eq: "(x # p) # ps = ls @ [b]" by simp
    show ?thesis
    proof (cases ls)
      case Nil
      with eq have b: "b = x # p" and ps: "ps = []" by simp_all
      from pps ps have "split_on sep xs = [] @ [p]" by simp
      from Cons.IH [OF this] False Nil b show ?thesis by simp
    next
      case (Cons l ls')
      with eq have l: "l = x # p" and ps: "ps = ls' @ [b]" by simp_all
      from pps ps have "split_on sep xs = (p # ls') @ [b]" by simp
      from Cons.IH [OF this] False Cons l show ?thesis by simp
    qed
  qed
qed

lemma lastIndexOf_None: "lastIndexOf s ch = None \<longleftrightarrow> ch \<notin> set s"
  by (induction s) (auto split: option.splits)

lemma lastIndexOf_Some:
  "lastIndexOf s ch = Some i \<Longrightarrow>
     i < length s \<and> s = take i s @ ch # drop (Suc i) s \<and> ch \<notin> set (drop (Suc i) s)"
proof (induction s arbitrary: i)
  case Nil
  then show ?case by simp
next
  case (Cons c cs)
  show ?case
  proof (cases "lastIndexOf cs ch")
    case None
    with Cons.prems have "c = ch" "i = 0" by (auto split: if_splits)
    with None show ?thesis by (simp add: lastIndexOf_None)
  next
    case (Some j)
    with Cons.prems have i: "i = Suc j" by simp
    from Cons.IH [OF Some] i show ?thesis by simp
  qed
qed

lemma join_lines_split_on: "join_lines (split_on newline s) = s"
proof (induction s)
  case Nil
  then show ?case by simp
next
  case (Cons c s)
  obtain p ps where pps: "split_on newline s = p # ps"
    by (cases "split_on newline s") simp_all
  with Cons show ?case
    by (cases ps) auto
qed

lemma CHUNK_SIZE_pos: "0 < CHUNK_SIZE"
  by (simp add: CHUNK_SIZE_def)

lemma read_at_empty: "length (read_at content pos CHUNK_SIZE) = 0 \<Longrightarrow> take pos content = content"
  using CHUNK_SIZE_pos by (auto simp: read_at_def)

lemma take_read_at:
  "take (pos + length (read_at content pos n)) content = take pos content @ read_at content pos n"
  by (simp add: read_at_def take_add min_def)

text \<open>Appending a chunk to the text read so far, in terms of the pieces.\<close>

lemma split_on_chunk:
  assumes "split_on sep pre = ls @ [b]"
  shows "split_on sep (pre @ chunk) = ls @ split_on sep (b @ chunk)"
proof -
  have "sep \<notin> set b"
    using last_split_on_no_sep [of sep pre] assms by simp
  then have "split_on sep b = [] @ [b]"
    by (simp add: split_on_no_sep)
  from split_on_extend [OF this] split_on_extend [OF assms]
  show ?thesis by simp
qed

lemma split_on_lastIndex:
  assumes "lastIndexOf s sep = Some i"
  shows "split_on sep s = split_on sep (take i s) @ [drop (Suc i) s]"
proof -
  from lastIndexOf_Some [OF assms]
  have s: "s = take i s @ sep # drop (Suc i) s" and no: "sep \<notin> set (drop (Suc i) s)"
    by simp_all
  have "split_on sep (take i s @ sep # drop (Suc i) s)
          = split_on sep (take i s) @ split_on sep (drop (Suc i) s)"
    by (rule split_on_append_sep)
  with s no show ?thesis
    by (simp add: split_on_no_sep)
qed

text \<open>
  The loop of \<^verbatim>\<open>headFile\<close> keeps this invariant: the text read so far splits into the lines
  collected and the buffer. When the loop ends, the lines collected are the first pieces
  of the whole text, and if they are fewer than asked for, the buffer is all that is left.
\<close>

lemma headFile_loop_spec:
  assumes "split_on newline (take bytesRead content) = lines @ [buffer]"
  shows "\<exists>rest. rest \<noteq> []
           \<and> split_on newline content
               = fst (headFile_loop (\<lambda>bytes. bytes) numLines content lines buffer bytesRead) @ rest
           \<and> (length (fst (headFile_loop (\<lambda>bytes. bytes) numLines content lines buffer bytesRead)) < numLines \<longrightarrow>
                rest = [snd (headFile_loop (\<lambda>bytes. bytes) numLines content lines buffer bytesRead)])"
  using assms
proof (induction "length content - bytesRead" arbitrary: lines buffer bytesRead rule: less_induct)
  case less
  note inv = less.prems
  have whole: "split_on newline content
      = lines @ split_on newline (buffer @ drop bytesRead content)"
    using split_on_chunk [OF inv, of "drop bytesRead content"] by simp
  show ?case
  proof (cases "length lines < numLines")
    case False
    then have "headFile_loop (\<lambda>bytes. bytes) numLines content lines buffer bytesRead = (lines, buffer)"
      by (subst headFile_loop.simps) simp
    with whole False show ?thesis by simp
  next
    case more: True
    let ?chunk = "read_at content bytesRead CHUNK_SIZE"
    show ?thesis
    proof (cases "length ?chunk = 0")
      case True
      with more have r: "headFile_loop (\<lambda>bytes. bytes) numLines content lines buffer bytesRead = (lines, buffer)"
        by (subst headFile_loop.simps) simp
      from read_at_empty [OF True] inv have "split_on newline content = lines @ [buffer]"
        by simp
      with r show ?thesis by simp
    next
      case False
      let ?pos = "bytesRead + length ?chunk"
      let ?buf = "buffer @ ?chunk"
      have pre: "split_on newline (take ?pos content) = lines @ split_on newline ?buf"
        using split_on_chunk [OF inv, of ?chunk] by (simp add: take_read_at)
      have "length ?chunk \<le> length content - bytesRead"
        by (simp add: read_at_def)
      moreover from False have "0 < length ?chunk"
        by simp
      ultimately have dec: "length content - ?pos < length content - bytesRead"
        by arith
      show ?thesis
      proof (cases "lastIndexOf ?buf newline")
        case None
        with more False
        have r: "headFile_loop (\<lambda>bytes. bytes) numLines content lines buffer bytesRead
            = headFile_loop (\<lambda>bytes. bytes) numLines content lines ?buf ?pos"
          by (subst headFile_loop.simps) (simp add: Let_def)
        from None have "newline \<notin> set ?buf"
          by (simp add: lastIndexOf_None)
        with pre have "split_on newline (take ?pos content) = lines @ [?buf]"
          by (simp add: split_on_no_sep)
        from less.hyps [OF dec this] r show ?thesis by simp
      next
        case (Some i)
        let ?lines = "lines @ split_on newline (take i ?buf)"
        let ?rest = "drop (i + 1) ?buf"
        from pre split_on_lastIndex [OF Some]
        have inv': "split_on newline (take ?pos content) = ?lines @ [?rest]"
          by simp
        show ?thesis
        proof (cases "length ?lines \<ge> numLines")
          case True
          with more False Some
          have r: "headFile_loop (\<lambda>bytes. bytes) numLines content lines buffer bytesRead = (?lines, ?rest)"
            by (subst headFile_loop.simps) (simp add: Let_def)
          have "split_on newline content
              = ?lines @ split_on newline (?rest @ drop ?pos content)"
            using split_on_chunk [OF inv', of "drop ?pos content"] by simp
          with r True show ?thesis by simp
        next
          case short: False
          with more False Some
          have r: "headFile_loop (\<lambda>bytes. bytes) numLines content lines buffer bytesRead
              = headFile_loop (\<lambda>bytes. bytes) numLines content ?lines ?rest ?pos"
            by (subst headFile_loop.simps) (simp add: Let_def)
          from less.hyps [OF dec inv'] r show ?thesis by simp
        qed
      qed
    qed
  qed
qed

text \<open>
  With chunks decoded as they are, \<^verbatim>\<open>headFile\<close> and \<^verbatim>\<open>rangeFile\<close> return slices of the
  lines of the file, and \<^verbatim>\<open>tailFile\<close> returns the last pieces of the reference unless the
  whole text is asked for and its first line is empty.
\<close>

lemma headFile_file_lines: "headFile (\<lambda>bytes. bytes) content numLines = join_lines (take numLines (file_lines content))"
proof -
  obtain ls b where r: "headFile_loop (\<lambda>bytes. bytes) numLines content [] [] 0 = (ls, b)"
    by (cases "headFile_loop (\<lambda>bytes. bytes) numLines content [] [] 0")
  have "split_on newline (take 0 content) = [] @ [[]]"
    by simp
  from headFile_loop_spec [OF this, of numLines] r
  obtain rest where rest: "rest \<noteq> []" and pieces: "split_on newline content = ls @ rest"
    and short: "length ls < numLines \<longrightarrow> rest = [b]"
    by auto
  show ?thesis
  proof (cases "length ls < numLines")
    case True
    with short pieces have "split_on newline content = ls @ [b]" by simp
    with True r show ?thesis
      by (simp add: headFile_def file_lines_def reference_lines_def Let_def)
  next
    case False
    with rest pieces have "take numLines (file_lines content) = take numLines ls"
      by (simp add: file_lines_def reference_lines_def butlast_append Let_def)
    with False r show ?thesis
      by (simp add: headFile_def)
  qed
qed

lemma rangeFile_collect_spec:
  "length seen < endLine \<Longrightarrow>
     rangeFile_collect startLine endLine lines (drop (startLine - 1) seen) (length seen)
       = (drop (startLine - 1) (seen @ take (endLine - length seen) lines),
          length seen + min (length lines) (endLine - length seen))"
proof (induction lines arbitrary: seen)
  case Nil
  then show ?case by simp
next
  case (Cons l lines)
  let ?n = "length seen + 1"
  have target: "(if ?n \<ge> startLine \<and> ?n \<le> endLine
                 then drop (startLine - 1) seen @ [l] else drop (startLine - 1) seen)
        = drop (startLine - 1) (seen @ [l])"
    using Cons.prems by auto
  show ?case
  proof (cases "?n \<ge> endLine")
    case True
    with Cons.prems have e: "endLine - length seen = 1" by simp
    from True show ?thesis
      unfolding rangeFile_collect.simps Let_def target e by simp
  next
    case False
    then have less: "length (seen @ [l]) < endLine" by simp
    have "endLine - length seen = Suc (endLine - length (seen @ [l]))"
      using False by simp
    then have t: "take (endLine - length seen) (l # lines) = l # take (endLine - length (seen @ [l])) lines"
      by (simp only: take_Suc_Cons)
    from False Cons.IH [OF less] show ?thesis
      unfolding rangeFile_collect.simps Let_def target t by simp
  qed
qed

lemma take_file_lines:
  assumes "split_on newline content = ls @ rest" "rest \<noteq> []" "n \<le> length ls"
  shows "take n (file_lines content) = take n ls"
  using assms by (simp add: file_lines_def reference_lines_def butlast_append Let_def)

text \<open>
  The loop of \<^verbatim>\<open>rangeFile\<close>, started when the text read so far splits into the lines
  \<open>seen\<close> and the buffer, returns the lines of the range.
\<close>

lemma rangeFile_loop_spec:
  assumes "split_on newline (take bytesRead content) = seen @ [buffer]"
    and "length seen < endLine"
  shows "rangeFile_loop (\<lambda>bytes. bytes) startLine endLine content (drop (startLine - 1) seen) (length seen)
           buffer bytesRead
         = take (endLine - (startLine - 1)) (drop (startLine - 1) (file_lines content))"
  using assms
proof (induction "length content - bytesRead" arbitrary: seen buffer bytesRead rule: less_induct)
  case less
  note inv = less.prems(1) and cur = less.prems(2)
  let ?chunk = "read_at content bytesRead CHUNK_SIZE"
  show ?case
  proof (cases "length ?chunk = 0")
    case True
    from read_at_empty [OF True] inv have pieces: "split_on newline content = seen @ [buffer]"
      by simp
    show ?thesis
    proof (cases "buffer = []")
      case True
      with pieces have fl: "file_lines content = seen"
        by (simp add: file_lines_def reference_lines_def)
      from True \<open>length ?chunk = 0\<close> cur
      have "rangeFile_loop (\<lambda>bytes. bytes) startLine endLine content (drop (startLine - 1) seen) (length seen)
           buffer bytesRead = drop (startLine - 1) seen"
        by (subst rangeFile_loop.simps) simp
      with cur fl show ?thesis by simp
    next
      case False
      with pieces have fl: "file_lines content = seen @ [buffer]"
        by (simp add: file_lines_def reference_lines_def)
      from False \<open>length ?chunk = 0\<close> cur
      have "rangeFile_loop (\<lambda>bytes. bytes) startLine endLine content (drop (startLine - 1) seen) (length seen)
           buffer bytesRead = drop (startLine - 1) (seen @ [buffer])"
        by (subst rangeFile_loop.simps) auto
      with cur fl show ?thesis by simp
    qed
  next
    case False
    let ?pos = "bytesRead + length ?chunk"
    let ?buf = "buffer @ ?chunk"
    have pre: "split_on newline (take ?pos content) = seen @ split_on newline ?buf"
      using split_on_chunk [OF inv, of ?chunk] by (simp add: take_read_at)
    have "length ?chunk \<le> length content - bytesRead"
      by (simp add: read_at_def)
    moreover from False have "0 < length ?chunk"
      by simp
    ultimately have dec: "length content - ?pos < length content - bytesRead"
      by arith
    show ?thesis
    proof (cases "lastIndexOf ?buf newline")
      case None
      with cur False
      have r: "rangeFile_loop (\<lambda>bytes. bytes) startLine endLine content (drop (startLine - 1) seen) (length seen)
           buffer bytesRead
          = rangeFile_loop (\<lambda>bytes. bytes) startLine endLine content (drop (startLine - 1) seen) (length seen)
           ?buf ?pos"
        by (subst rangeFile_loop.simps) (simp add: Let_def)
      from None have "newline \<notin> set ?buf"
        by (simp add: lastIndexOf_None)
      with pre have "split_on newline (take ?pos content) = seen @ [?buf]"
        by (simp add: split_on_no_sep)
      from less.hyps [OF dec this cur] r show ?thesis by simp
    next
      case (Some i)
      let ?lines = "split_on newline (take i ?buf)"
      let ?rest = "drop (i + 1) ?buf"
      from pre split_on_lastIndex [OF Some]
      have inv': "split_on newline (take ?pos content) = (seen @ ?lines) @ [?rest]"
        by simp
      have r: "rangeFile_loop (\<lambda>bytes. bytes) startLine endLine content (drop (startLine - 1) seen) (length seen)
           buffer bytesRead
          = rangeFile_loop (\<lambda>bytes. bytes) startLine endLine content
              (drop (startLine - 1) (seen @ take (endLine - length seen) ?lines))
              (length seen + min (length ?lines) (endLine - length seen)) ?rest ?pos"
        using False
        by (subst rangeFile_loop.simps)
          (simp only: Let_def cur if_True if_False Some option.case prod.case
            rangeFile_collect_spec [OF cur])
      show ?thesis
      proof (cases "length ?lines < endLine - length seen")
        case True
        then have "length (seen @ ?lines) < endLine" by simp
        from less.hyps [OF dec inv' this] r True show ?thesis
          by (simp add: min_def)
      next
        case False
        then have full: "length seen + min (length ?lines) (endLine - length seen) = endLine"
          using cur by simp
        have stop: "rangeFile_loop (\<lambda>bytes. bytes) startLine endLine content
              (drop (startLine - 1) (seen @ take (endLine - length seen) ?lines)) endLine ?rest ?pos
            = drop (startLine - 1) (seen @ take (endLine - length seen) ?lines)"
          by (subst rangeFile_loop.simps) simp
        have whole: "split_on newline content
            = (seen @ ?lines) @ split_on newline (?rest @ drop ?pos content)"
          using split_on_chunk [OF inv', of "drop ?pos content"] by simp
        have "take endLine (file_lines content) = take endLine (seen @ ?lines)"
          using False cur by (intro take_file_lines [OF whole]) simp_all
        also have "\<dots> = seen @ take (endLine - length seen) ?lines"
          using cur by simp
        finally have te: "take endLine (file_lines content)
            = seen @ take (endLine - length seen) ?lines" .
        have "drop (startLine - 1) (seen @ take (endLine - length seen) ?lines)
            = drop (startLine - 1) (take endLine (file_lines content))"
          by (simp only: te)
        also have "\<dots> = take (endLine - (startLine - 1)) (drop (startLine - 1) (file_lines content))"
          by (rule drop_take)
        finally have tgt: "drop (startLine - 1) (seen @ take (endLine - length seen) ?lines)
            = take (endLine - (startLine - 1)) (drop (startLine - 1) (file_lines content))" .
        show ?thesis
          unfolding r full stop by (rule tgt)
      qed
    qed
  qed
qed

lemma rangeFile_file_lines:
  "rangeFile (\<lambda>bytes. bytes) content startLine endLine
     = join_lines (take (endLine - (startLine - 1)) (drop (startLine - 1) (file_lines content)))"
proof (cases "endLine = 0")
  case True
  then have "rangeFile_loop (\<lambda>bytes. bytes) startLine endLine content [] 0 [] 0 = []"
    by (subst rangeFile_loop.simps) simp
  with True show ?thesis by (simp add: rangeFile_def)
next
  case False
  have "split_on newline (take 0 content) = [] @ [[]]"
    by simp
  from rangeFile_loop_spec [OF this, of endLine startLine] False show ?thesis
    by (simp add: rangeFile_def)
qed






lemma empty_file:
  "headFile (\<lambda>bytes. bytes) [] n = []" "tailFile (\<lambda>bytes. bytes) [] n = []" "rangeFile (\<lambda>bytes. bytes) [] startLine endLine = []"
  by (simp_all add: headFile_file_lines rangeFile_file_lines file_lines_def reference_lines_def
      tailFile_def)






text \<open>What the schema lets through, and what \<^verbatim>\<open>readSingleFile\<close> does with it.\<close>

lemma parse_SomeD:
  assumes "ReadFileArgsSchema_parse args = Some validated"
  shows "validated = args\<lparr>arg_mode := Some (case arg_mode args of None \<Rightarrow> ModeFull | Some m \<Rightarrow> m)\<rparr>"
    and "positive_optional (arg_lines args)" and "positive_optional (arg_startLine args)"
    and "positive_optional (arg_endLine args)" and "refine_ok validated"
  using assms by (simp_all add: ReadFileArgsSchema_parse_def Let_def split: if_splits)

lemma parse_path: "ReadFileArgsSchema_parse args = Some validated \<Longrightarrow> arg_path validated = arg_path args"
  by (drule parse_SomeD(1)) simp

lemma parse_mode:
  assumes "ReadFileArgsSchema_parse args = Some validated"
  shows "\<exists>m. arg_mode validated = Some m"
proof -
  have "arg_mode validated = Some (case arg_mode args of None \<Rightarrow> ModeFull | Some m \<Rightarrow> m)"
    by (subst parse_SomeD(1) [OF assms]) simp
  then show ?thesis ..
qed

lemma parse_idem:
  assumes "ReadFileArgsSchema_parse args = Some validated"
  shows "ReadFileArgsSchema_parse validated = Some validated"
proof -
  note d = parse_SomeD [OF assms]
  have m: "validated\<lparr>arg_mode := Some (case arg_mode validated of None \<Rightarrow> ModeFull | Some m \<Rightarrow> m)\<rparr>
      = validated"
    by (subst (1 2 3) d(1)) simp
  have l: "arg_lines validated = arg_lines args" "arg_startLine validated = arg_startLine args"
    "arg_endLine validated = arg_endLine args"
    by (simp_all add: d(1))
  show ?thesis
    by (simp add: ReadFileArgsSchema_parse_def Let_def m l d(2-5))
qed

lemma refine_head: "refine_ok d \<Longrightarrow> arg_mode d = Some ModeHead \<Longrightarrow> \<not> falsy (arg_lines d)"
  by (simp add: refine_ok_def split: if_splits)

lemma refine_tail: "refine_ok d \<Longrightarrow> arg_mode d = Some ModeTail \<Longrightarrow> \<not> falsy (arg_lines d)"
  by (simp add: refine_ok_def split: if_splits)

lemma refine_range:
  "refine_ok d \<Longrightarrow> arg_mode d = Some ModeRange \<Longrightarrow>
     \<not> falsy (arg_startLine d) \<and> \<not> falsy (arg_endLine d)
     \<and> the (arg_startLine d) \<le> the (arg_endLine d)"
  by (simp add: refine_ok_def split: if_splits)

lemma read_with_cong:
  "(\<And>content. f content = g content) \<Longrightarrow> read_with fs path f = read_with fs path g"
  by (simp add: read_with_def split: sum.splits)

lemma readSingleFile_valid:
  assumes "ReadFileArgsSchema_parse args = Some validated"
  shows "readSingleFile js fs args
           = read_with fs (arg_path args) (requested_slice (toString_utf8 js) validated)"
proof -
  note d = parse_SomeD [OF assms]
  from parse_mode [OF assms] obtain m where m: "arg_mode validated = Some m" ..
  have p: "arg_path validated = arg_path args"
    by (rule parse_path [OF assms])
  show ?thesis
  proof (cases m)
    case ModeFull
    with m have "readSingleFile js fs args
        = read_with fs (arg_path args) (\<lambda>content. toString_utf8 js content)"
      by (simp add: readSingleFile_def assms p)
    also have "\<dots> = read_with fs (arg_path args) (requested_slice (toString_utf8 js) validated)"
      by (rule read_with_cong) (simp add: requested_slice_def m ModeFull)
    finally show ?thesis .
  next
    case ModeHead
    with m refine_head [OF d(5)] have "readSingleFile js fs args
        = read_with fs (arg_path args)
            (\<lambda>content. headFile (toString_utf8 js) content (nat (the (arg_lines validated))))"
      by (simp add: readSingleFile_def assms p)
    also have "\<dots> = read_with fs (arg_path args) (requested_slice (toString_utf8 js) validated)"
      by (rule read_with_cong) (simp add: requested_slice_def m ModeHead)
    finally show ?thesis .
  next
    case ModeTail
    with m refine_tail [OF d(5)] have "readSingleFile js fs args
        = read_with fs (arg_path args)
            (\<lambda>content. tailFile (toString_utf8 js) content (nat (the (arg_lines validated))))"
      by (simp add: readSingleFile_def assms p)
    also have "\<dots> = read_with fs (arg_path args) (requested_slice (toString_utf8 js) validated)"
      by (rule read_with_cong) (simp add: requested_slice_def m ModeTail)
    finally show ?thesis .
  next
    case ModeRange
    with m refine_range [OF d(5)] have "readSingleFile js fs args
        = read_with fs (arg_path args)
            (\<lambda>content. rangeFile (toString_utf8 js) content (nat (the (arg_startLine validated)))
                          (nat (the (arg_endLine validated))))"
      by (simp add: readSingleFile_def assms p)
    also have "\<dots> = read_with fs (arg_path args) (requested_slice (toString_utf8 js) validated)"
      by (rule read_with_cong) (simp add: requested_slice_def m ModeRange)
    finally show ?thesis .
  qed
qed

lemma readSingleFile_validated:
  assumes "ReadFileArgsSchema_parse args = Some validated"
  shows "readSingleFile js fs validated
           = read_with fs (arg_path args) (requested_slice (toString_utf8 js) validated)"
  using readSingleFile_valid [OF parse_idem [OF assms]] parse_path [OF assms] by simp









subsection \<open>Batches of reads\<close>

lemma batch_parse_None:
  "ReadMultipleFilesArgsSchema_parse files = None \<Longrightarrow>
     readMultipleFilesTool js fs files = (\<lparr>batch_success = False, batch_results = []\<rparr>, [])"
  by (simp add: readMultipleFilesTool_def)

lemma batch_parse_Some_iff:
  "ReadMultipleFilesArgsSchema_parse files \<noteq> None \<longleftrightarrow>
     1 \<le> length files \<and> length files \<le> 50
     \<and> (\<forall>request \<in> set files. ReadFileArgsSchema_parse request \<noteq> None)"
  by (simp add: ReadMultipleFilesArgsSchema_parse_def)

lemma batch_success_iff:
  "batch_success (fst (readMultipleFilesTool js fs files))
     \<longleftrightarrow> ReadMultipleFilesArgsSchema_parse files \<noteq> None"
  by (simp add: readMultipleFilesTool_def split: option.splits)

lemma read_with_accessed: "snd (read_with fs path f) = [path]"
  by (simp add: read_with_def split: sum.splits)



text \<open>
  A batch that the schema accepts: every request is read by itself, with the data the
  schema returned for it, and delivers into its own slot.
\<close>

lemma batch_valid:
  assumes "ReadMultipleFilesArgsSchema_parse files \<noteq> None"
  shows "readMultipleFilesTool js fs files =
       (\<lparr>batch_success = True,
         batch_results =
           map (\<lambda>request.
                  (let result = fst (read_with fs (arg_path request)
                         (requested_slice (toString_utf8 js) (the (ReadFileArgsSchema_parse request))))
                   in \<lparr>slot_path = arg_path request, slot_content = read_content result,
                       slot_error = read_error result\<rparr>)) files\<rparr>,
        map arg_path files)"
proof -
  from assms have each: "\<forall>request \<in> set files. ReadFileArgsSchema_parse request \<noteq> None"
    by (simp add: ReadMultipleFilesArgsSchema_parse_def split: if_splits)
  from assms have v: "ReadMultipleFilesArgsSchema_parse files
      = Some (map (\<lambda>request. the (ReadFileArgsSchema_parse request)) files)"
    by (simp add: ReadMultipleFilesArgsSchema_parse_def split: if_splits)
  have single: "readSingleFile js fs (the (ReadFileArgsSchema_parse request))
      = read_with fs (arg_path request)
          (requested_slice (toString_utf8 js) (the (ReadFileArgsSchema_parse request)))"
    and path: "arg_path (the (ReadFileArgsSchema_parse request)) = arg_path request"
    if "request \<in> set files" for request
  proof -
    from each that obtain validated where p: "ReadFileArgsSchema_parse request = Some validated"
      by (cases "ReadFileArgsSchema_parse request") auto
    show "readSingleFile js fs (the (ReadFileArgsSchema_parse request))
      = read_with fs (arg_path request)
          (requested_slice (toString_utf8 js) (the (ReadFileArgsSchema_parse request)))"
      using readSingleFile_validated [OF p] by (simp add: p)
    show "arg_path (the (ReadFileArgsSchema_parse request)) = arg_path request"
      using parse_path [OF p] by (simp add: p)
  qed
  have results: "map (\<lambda>fileRequest.
                     (let result = fst (readSingleFile js fs fileRequest)
                      in \<lparr>slot_path = arg_path fileRequest, slot_content = read_content result,
                          slot_error = read_error result\<rparr>))
        (map (\<lambda>request. the (ReadFileArgsSchema_parse request)) files)
      = map (\<lambda>request.
                  (let result = fst (read_with fs (arg_path request)
                         (requested_slice (toString_utf8 js) (the (ReadFileArgsSchema_parse request))))
                   in \<lparr>slot_path = arg_path request, slot_content = read_content result,
                       slot_error = read_error result\<rparr>)) files"
    by (simp add: single path Let_def cong: map_cong)
  have accessed: "concat (map (\<lambda>fileRequest. snd (readSingleFile js fs fileRequest))
        (map (\<lambda>request. the (ReadFileArgsSchema_parse request)) files))
      = map arg_path files"
  proof -
    have "map (\<lambda>fileRequest. snd (readSingleFile js fs fileRequest))
        (map (\<lambda>request. the (ReadFileArgsSchema_parse request)) files)
        = map (\<lambda>request. [arg_path request]) files"
      unfolding map_map comp_def
      by (rule map_cong [OF refl]) (simp add: single read_with_accessed)
    then show ?thesis
      by (simp only: concat_map_singleton)
  qed
  show ?thesis
    unfolding readMultipleFilesTool_def v option.case results accessed by (rule refl)
qed

text \<open>
  Claim C10. A batch of no request, or of more than 50, is refused by the schema: the call
  returns the failure result with no slot and has opened no file; it returns a result
  (the function has no other outcome). A batch of 1 to 50 requests is refused only when
  the schema of a single request refuses one of them, and succeeds otherwise.
\<close>

theorem C10_batch_arity:
  "(files = [] \<or> length files > 50 \<longrightarrow>
      readMultipleFilesTool js fs files = (\<lparr>batch_success = False, batch_results = []\<rparr>, []))
   \<and> (1 \<le> length files \<and> length files \<le> 50 \<longrightarrow>
        (ReadMultipleFilesArgsSchema_parse files = None
           \<longleftrightarrow> (\<exists>request \<in> set files. ReadFileArgsSchema_parse request = None))
        \<and> (batch_success (fst (readMultipleFilesTool js fs files))
           \<longleftrightarrow> (\<forall>request \<in> set files. ReadFileArgsSchema_parse request \<noteq> None)))"
proof -
  have small: "files = [] \<or> length files > 50 \<longrightarrow>
      readMultipleFilesTool js fs files = (\<lparr>batch_success = False, batch_results = []\<rparr>, [])"
  proof
    assume "files = [] \<or> length files > 50"
    then have "ReadMultipleFilesArgsSchema_parse files = None"
      by (auto simp: ReadMultipleFilesArgsSchema_parse_def)
    then show "readMultipleFilesTool js fs files
        = (\<lparr>batch_success = False, batch_results = []\<rparr>, [])"
      by (rule batch_parse_None)
  qed
  have fits: "1 \<le> length files \<and> length files \<le> 50 \<longrightarrow>
        (ReadMultipleFilesArgsSchema_parse files = None
           \<longleftrightarrow> (\<exists>request \<in> set files. ReadFileArgsSchema_parse request = None))
        \<and> (batch_success (fst (readMultipleFilesTool js fs files))
           \<longleftrightarrow> (\<forall>request \<in> set files. ReadFileArgsSchema_parse request \<noteq> None))"
    using batch_parse_Some_iff [of files] by (auto simp: batch_success_iff)
  from small fits show ?thesis by (rule conjI)
qed

lemma example_request_valid: "ReadFileArgsSchema_parse (example_request path) \<noteq> None"
  by (simp add: ReadFileArgsSchema_parse_def example_request_def positive_optional_def
      refine_ok_def Let_def)

theorem C10_batch_arity_witness:
  "readMultipleFilesTool example_platform example_files []
     = (\<lparr>batch_success = False, batch_results = []\<rparr>, [])
   \<and> readMultipleFilesTool example_platform example_files (replicate 51 (example_request ''/p/a.txt''))
     = (\<lparr>batch_success = False, batch_results = []\<rparr>, [])
   \<and> batch_success (fst (readMultipleFilesTool example_platform example_files
        (replicate 50 (example_request ''/p/a.txt''))))
   \<and> batch_success (fst (readMultipleFilesTool example_platform example_files
        [example_request ''/p/a.txt'']))"
proof -
  have a: "readMultipleFilesTool example_platform example_files []
     = (\<lparr>batch_success = False, batch_results = []\<rparr>, [])"
    by (rule C10_batch_arity [THEN conjunct1, THEN mp]) simp
  have b: "readMultipleFilesTool example_platform example_files
        (replicate 51 (example_request ''/p/a.txt''))
     = (\<lparr>batch_success = False, batch_results = []\<rparr>, [])"
    by (rule C10_batch_arity [THEN conjunct1, THEN mp]) simp
  have c: "batch_success (fst (readMultipleFilesTool example_platform example_files
        (replicate 50 (example_request ''/p/a.txt''))))"
    by (rule C10_batch_arity [THEN conjunct2, THEN mp, THEN conjunct2, THEN iffD2])
      (simp_all add: example_request_valid)
  have d: "batch_success (fst (readMultipleFilesTool example_platform example_files
        [example_request ''/p/a.txt'']))"
    by (rule C10_batch_arity [THEN conjunct2, THEN mp, THEN conjunct2, THEN iffD2])
      (simp_all add: example_request_valid)
  from a b c d show ?thesis
    by (intro conjI) assumption+
qed




subsection \<open>Targeted analysis\<close>

text \<open>
  A request of mode \<^verbatim>\<open>range\<close> without a start line is refused by the schema, and with it
  the whole batch that contains it; so is a request of mode \<^verbatim>\<open>head\<close> or \<^verbatim>\<open>tail\<close> without a
  number of lines.
\<close>

lemma parse_range_unbounded:
  "arg_mode request = Some ModeRange \<Longrightarrow> arg_startLine request = None \<Longrightarrow>
     ReadFileArgsSchema_parse request = None"
  by (simp add: ReadFileArgsSchema_parse_def refine_ok_def falsy_def Let_def)

lemma parse_head_unbounded:
  "arg_mode request = Some ModeHead \<Longrightarrow> arg_lines request = None \<Longrightarrow>
     ReadFileArgsSchema_parse request = None"
  by (simp add: ReadFileArgsSchema_parse_def refine_ok_def falsy_def Let_def)

lemma service_refuses:
  assumes "request \<in> set files" "ReadFileArgsSchema_parse request = None"
  shows "\<not> service_success (fst (ToolCallingService_readMultipleFiles js config fs files))"
proof -
  from assms have "ReadMultipleFilesArgsSchema_parse files = None"
    by (auto simp: ReadMultipleFilesArgsSchema_parse_def)
  then have "readMultipleFilesTool js fs files
      = (\<lparr>batch_success = False, batch_results = []\<rparr>, [])"
    by (rule batch_parse_None)
  then show ?thesis
    by (simp add: ToolCallingService_readMultipleFiles_def split: option.splits)
qed

text \<open>A group with a request that the schema refuses leaves no trace in the analysis.\<close>

lemma analyze_group_refused:
  assumes "target \<in> set targetGroup"
    and "ReadFileArgsSchema_parse (target_request js projectRoot workingDirectory target) = None"
  shows "analyze_group js config fs projectRoot workingDirectory state targetGroup = state"
proof -
  from assms(1) have "target_request js projectRoot workingDirectory target
      \<in> set (map (target_request js projectRoot workingDirectory) targetGroup)"
    by simp
  from service_refuses [OF this assms(2)] assms(1) show ?thesis
    by (cases state) (auto simp: analyze_group_def Let_def)
qed

lemma analyze_group_empty:
  "analyze_group js config fs projectRoot workingDirectory state [] = state"
  by (cases state) (simp add: analyze_group_def)

lemma target_only_file_dropped:
  fixes name :: string and p :: "priority option"
  defines "target \<equiv> \<lparr>target_file = name, target_mode = None, target_lines = None,
      target_startLine = None, target_endLine = None, target_priority = p\<rparr>"
  shows "analyzeTargetedSections js config fs [target] projectRoot workingDirectory
     = \<lparr>analysis_content =
          join_lines [''## Targeted Code Analysis'',
                      ''*(Client-specified code sections with mode support)*'' @ [newline]],
        fileAnalysisPerformed = True, filesAnalyzed = 0, toolsUsed = [''readMultipleFiles'']\<rparr>"
proof -
  have "ReadFileArgsSchema_parse (target_request js projectRoot workingDirectory target) = None"
    by (rule parse_range_unbounded) (simp_all add: target_request_def target_def)
  then have drop: "analyze_group js config fs projectRoot workingDirectory state [target] = state"
    for state
    by (intro analyze_group_refused [where target = target]) simp_all
  have p: "target_priority target = p"
    by (simp add: target_def)
  show ?thesis
  proof (cases p)
    case None
    then show ?thesis
      by (simp add: analyzeTargetedSections_def p drop analyze_group_empty)
  next
    case (Some q)
    then show ?thesis
      by (cases q) (simp_all add: analyzeTargetedSections_def p drop analyze_group_empty)
  qed
qed

text \<open>
  A group whose batch read succeeds contributes one section for each of its targets, in
  their order; the section of a target whose own read failed ends with the text of the
  failure.
\<close>

lemma service_slots:
  assumes "service_success (fst (ToolCallingService_readMultipleFiles js config fs files))"
  shows "map slot_path (service_results (fst (ToolCallingService_readMultipleFiles js config fs files)))
       = map arg_path files"
proof -
  from assms have enabled: "readFile_enabled config"
    and allowed: "find (\<lambda>fileRequest. getFileExtension js (arg_path fileRequest)
                       \<notin> set (allowedFileExtensions config)) files = None"
    and ok: "batch_success (fst (readMultipleFilesTool js fs files))"
    by (auto simp: ToolCallingService_readMultipleFiles_def split: if_splits option.splits prod.splits)
  from ok have valid: "ReadMultipleFilesArgsSchema_parse files \<noteq> None"
    by (simp add: batch_success_iff)
  have path: "slot_path (size_checked js config slot) = slot_path slot" for slot
    by (simp add: size_checked_def split: option.splits)
  show ?thesis
    by (simp add: ToolCallingService_readMultipleFiles_def enabled allowed batch_valid [OF valid]
        Let_def comp_def path)
qed

lemma analyze_group_success:
  assumes "targetGroup \<noteq> []"
    and "service_success (fst (ToolCallingService_readMultipleFiles js config fs
           (map (target_request js projectRoot workingDirectory) targetGroup)))"
  shows "analyze_group js config fs projectRoot workingDirectory (analysis, processed) targetGroup
       = (analysis
            @ concat (map (\<lambda>(target, result). target_section js target result)
                (zip targetGroup
                   (service_results (fst (ToolCallingService_readMultipleFiles js config fs
                      (map (target_request js projectRoot workingDirectory) targetGroup)))))),
          processed @ map target_file targetGroup)"
  using assms by (simp add: analyze_group_def Let_def)

lemma target_section_failed:
  assumes "slot_content result = None" "slot_error result = Some msg"
  shows "hd (target_section js target result)
       = ''### '' @ target_file target
           @ (if target_priority target = Some Critical then '' [CRITICAL]'' else [])"
    and "last (target_section js target result) = ''Failed to read section: '' @ msg @ [newline]"
  using assms by (simp_all add: target_section_def)

text \<open>
  Claim C8. The output is to hold one section for every target, and a target whose read
  fails is to keep its place with the text of its error, never silently dropped. A target
  that names only its file (the one field the tool's input schema requires) gets the mode
  \<^verbatim>\<open>range\<close> without bounds, which the schema of the read tool refuses together with the
  whole batch: the output then holds the two heading lines and nothing for the target,
  whatever the files and the configuration. Likewise, of the three targets a
  (supplementary, whole file), b (critical, mode \<^verbatim>\<open>head\<close> without a number of lines) and c
  (important, whole file), the output holds the sections of c and a, in this order, and
  nothing for the critical target b.
\<close>

theorem C8_refused_target_silently_dropped:
  "analyzeTargetedSections js config fs
       [\<lparr>target_file = name, target_mode = None, target_lines = None,
         target_startLine = None, target_endLine = None, target_priority = p\<rparr>]
       projectRoot workingDirectory
     = \<lparr>analysis_content =
          join_lines [''## Targeted Code Analysis'',
                      ''*(Client-specified code sections with mode support)*'' @ [newline]],
        fileAnalysisPerformed = True, filesAnalyzed = 0, toolsUsed = [''readMultipleFiles'']\<rparr>
   \<and> analyzeTargetedSections example_platform example_config example_files
       [example_target ''/p/a.txt'' (Some Supplementary),
        (example_target ''/p/b.txt'' (Some Critical))\<lparr>target_mode := Some ModeHead\<rparr>,
        example_target ''/p/c.txt'' (Some Important)]
       ''/p'' None
     = \<lparr>analysis_content =
          join_lines [''## Targeted Code Analysis'',
                      ''*(Client-specified code sections with mode support)*'' @ [newline],
                      ''### /p/c.txt'', ''**Mode: full**'', code_fence, ''gamma'',
                      code_fence @ [newline],
                      ''### /p/a.txt'', ''**Mode: full**'', code_fence, example_text,
                      code_fence @ [newline]],
        fileAnalysisPerformed = True, filesAnalyzed = 2, toolsUsed = [''readMultipleFiles'']\<rparr>"
proof -
  let ?a = "example_target ''/p/a.txt'' (Some Supplementary)"
  let ?b = "(example_target ''/p/b.txt'' (Some Critical))\<lparr>target_mode := Some ModeHead\<rparr>"
  let ?c = "example_target ''/p/c.txt'' (Some Important)"
  have "ReadFileArgsSchema_parse (target_request example_platform ''/p'' None ?b) = None"
    by (rule parse_head_unbounded) (simp_all add: target_request_def example_target_def)
  then have b: "analyze_group example_platform example_config example_files ''/p'' None state [?b]
      = state" for state
    by (intro analyze_group_refused [where target = ?b]) simp_all
  have full: "ReadFileArgsSchema_parse (target_request example_platform ''/p'' None
        (example_target name q)) \<noteq> None" for name q
    by (simp add: ReadFileArgsSchema_parse_def target_request_def example_target_def
        positive_optional_def refine_ok_def Let_def)
  have ext: "getFileExtension example_platform ''/p/a.txt'' = ''.txt''"
    "getFileExtension example_platform ''/p/c.txt'' = ''.txt''"
    by (simp_all add: getFileExtension_def example_platform_def toLowerCase_char_def Let_def)
  have size_a: "size_checked example_platform example_config
        \<lparr>slot_path = path, slot_content = Some example_text, slot_error = None\<rparr>
      = \<lparr>slot_path = path, slot_content = Some example_text, slot_error = None\<rparr>" for path
    by (simp add: size_checked_def example_platform_def example_config_def example_text_def)
  have size_c: "size_checked example_platform example_config
        \<lparr>slot_path = path, slot_content = Some ''gamma'', slot_error = None\<rparr>
      = \<lparr>slot_path = path, slot_content = Some ''gamma'', slot_error = None\<rparr>" for path
    by (simp add: size_checked_def example_platform_def example_config_def)
  have abs: "isAbsolute example_platform ''/p/a.txt''" "isAbsolute example_platform ''/p/c.txt''"
    by (simp_all add: example_platform_def)
  have utf8: "toString_utf8 example_platform = (\<lambda>bytes. bytes)"
    by (simp add: example_platform_def)
  have read_a: "fst (ToolCallingService_readMultipleFiles example_platform example_config
        example_files [target_request example_platform ''/p'' None ?a])
      = \<lparr>service_success = True,
         service_results = [\<lparr>slot_path = ''/p/a.txt'', slot_content = Some example_text,
                              slot_error = None\<rparr>],
         service_error = None\<rparr>"
  proof -
    have v: "ReadMultipleFilesArgsSchema_parse [target_request example_platform ''/p'' None ?a]
        \<noteq> None"
      by (simp add: ReadMultipleFilesArgsSchema_parse_def full)
    have p: "arg_path (target_request example_platform ''/p'' None ?a) = ''/p/a.txt''"
      by (simp add: target_request_def example_target_def abs)
    have m: "arg_mode (the (ReadFileArgsSchema_parse
        (target_request example_platform ''/p'' None ?a))) = Some ModeFull"
      by (simp add: ReadFileArgsSchema_parse_def target_request_def example_target_def
          positive_optional_def refine_ok_def Let_def)
    show ?thesis
      by (simp add: ToolCallingService_readMultipleFiles_def example_config_def p ext
          batch_valid [OF v] read_with_def example_files_def requested_slice_def m utf8
          size_a [unfolded example_config_def] Let_def)
  qed
  have read_c: "fst (ToolCallingService_readMultipleFiles example_platform example_config
        example_files [target_request example_platform ''/p'' None ?c])
      = \<lparr>service_success = True,
         service_results = [\<lparr>slot_path = ''/p/c.txt'', slot_content = Some ''gamma'',
                              slot_error = None\<rparr>],
         service_error = None\<rparr>"
  proof -
    have v: "ReadMultipleFilesArgsSchema_parse [target_request example_platform ''/p'' None ?c]
        \<noteq> None"
      by (simp add: ReadMultipleFilesArgsSchema_parse_def full)
    have p: "arg_path (target_request example_platform ''/p'' None ?c) = ''/p/c.txt''"
      by (simp add: target_request_def example_target_def abs)
    have m: "arg_mode (the (ReadFileArgsSchema_parse
        (target_request example_platform ''/p'' None ?c))) = Some ModeFull"
      by (simp add: ReadFileArgsSchema_parse_def target_request_def example_target_def
          positive_optional_def refine_ok_def Let_def)
    show ?thesis
      by (simp add: ToolCallingService_readMultipleFiles_def example_config_def p ext
          batch_valid [OF v] read_with_def example_files_def requested_slice_def m utf8
          size_c [unfolded example_config_def] Let_def)
  qed
  have nonempty: "example_text \<noteq> []"
    by (simp add: example_text_def)
  have file_of: "target_file (example_target name q) = name" for name q
    by (simp add: example_target_def)
  have section_a: "target_section example_platform ?a
        \<lparr>slot_path = ''/p/a.txt'', slot_content = Some example_text, slot_error = None\<rparr>
      = [''### /p/a.txt'', ''**Mode: full**'', code_fence, example_text, code_fence @ [newline]]"
    by (simp add: target_section_def example_target_def mode_name_def falsy_def nonempty)
  have section_c: "target_section example_platform ?c
        \<lparr>slot_path = ''/p/c.txt'', slot_content = Some ''gamma'', slot_error = None\<rparr>
      = [''### /p/c.txt'', ''**Mode: full**'', code_fence, ''gamma'', code_fence @ [newline]]"
    by (simp add: target_section_def example_target_def mode_name_def falsy_def)
  have group_a: "analyze_group example_platform example_config example_files ''/p'' None
        (analysis, processed) [?a]
      = (analysis @ [''### /p/a.txt'', ''**Mode: full**'', code_fence, example_text,
                     code_fence @ [newline]], processed @ [''/p/a.txt''])"
    for analysis processed
    by (simp add: analyze_group_def read_a section_a file_of Let_def)
  have group_c: "analyze_group example_platform example_config example_files ''/p'' None
        (analysis, processed) [?c]
      = (analysis @ [''### /p/c.txt'', ''**Mode: full**'', code_fence, ''gamma'',
                     code_fence @ [newline]], processed @ [''/p/c.txt''])"
    for analysis processed
    by (simp add: analyze_group_def read_c section_c file_of Let_def)
  have one: "analyzeTargetedSections js config fs
       [\<lparr>target_file = name, target_mode = None, target_lines = None,
         target_startLine = None, target_endLine = None, target_priority = p\<rparr>]
       projectRoot workingDirectory
     = \<lparr>analysis_content =
          join_lines [''## Targeted Code Analysis'',
                      ''*(Client-specified code sections with mode support)*'' @ [newline]],
        fileAnalysisPerformed = True, filesAnalyzed = 0, toolsUsed = [''readMultipleFiles'']\<rparr>"
    by (rule target_only_file_dropped)
  have three: "analyzeTargetedSections example_platform example_config example_files
       [?a, ?b, ?c] ''/p'' None
     = \<lparr>analysis_content =
          join_lines [''## Targeted Code Analysis'',
                      ''*(Client-specified code sections with mode support)*'' @ [newline],
                      ''### /p/c.txt'', ''**Mode: full**'', code_fence, ''gamma'',
                      code_fence @ [newline],
                      ''### /p/a.txt'', ''**Mode: full**'', code_fence, example_text,
                      code_fence @ [newline]],
        fileAnalysisPerformed = True, filesAnalyzed = 2, toolsUsed = [''readMultipleFiles'']\<rparr>"
  proof -
    have groups: "filter (\<lambda>t. target_priority t = Some Critical) [?a, ?b, ?c] = [?b]"
      "filter (\<lambda>t. target_priority t = Some Important \<or> target_priority t = None) [?a, ?b, ?c]
         = [?c]"
      "filter (\<lambda>t. target_priority t = Some Supplementary) [?a, ?b, ?c] = [?a]"
      by (simp_all add: example_target_def)
    show ?thesis
      unfolding analyzeTargetedSections_def groups Let_def
      by (simp add: b group_a group_c)
  qed
  from one three show ?thesis by (rule conjI)
qed

end
